theory Spec2Isabelle
  imports Complex_Main
begin

section \<open>Data model\<close>

text \<open>
  The simulation of \<^verbatim>\<open>epstein_civil_violence/model.py\<close> and \<^verbatim>\<open>agent.py\<close>.
  Python exceptions are values of \<open>error\<close>; a function that can raise returns
  \<open>error + 'a\<close>. Python floats are modelled as reals (no rounding).
\<close>

datatype error = ValueError | NetworkXError | NodeNotFound | KeyError | ZeroDivisionError

datatype breed = Citizen | Cop

datatype condition = Quiescent | Active

type_synonym pos = "int \<times> int"

text \<open>
  One record for both agent classes, told apart by \<open>breed\<close> as the source does
  (\<^verbatim>\<open>c.breed == "citizen"\<close>). A \<^verbatim>\<open>Cop\<close> object has only \<open>unique_id\<close>, \<open>breed\<close>, \<open>pos\<close> and
  \<open>vision\<close>; its other fields are never read. \<open>arrest_probability\<close> is \<^verbatim>\<open>None\<close> until the
  first estimate, \<open>actives_in_vision\<close> does not exist until then.
\<close>

record agent =
  unique_id :: nat
  breed :: breed
  pos :: pos
  vision :: nat
  hardship :: real
  regime_legitimacy :: real
  risk_aversion :: real
  threshold :: real
  condition :: condition
  jail_sentence :: int
  grievance :: real
  arrest_probability :: "real option"
  actives_in_vision :: "real option"
  strong_ties_received :: nat
  weak_ties_received :: nat

text \<open>
  The influence network: an undirected graph without parallel edges. \<open>edge_data\<close> holds the
  \<^verbatim>\<open>censor_steps\<close> attribute of every edge, under the edge's endpoints in canonical order
  (smaller identity first).
\<close>

record graph =
  nodes :: "nat list"
  edge_data :: "nat \<times> nat \<Rightarrow> int option"

text \<open>One row of the data collector's model variables.\<close>

record report =
  r_quiescent :: nat
  r_active :: nat
  r_jailed :: nat
  r_citizens :: nat
  r_cops :: nat
  r_average_jailing_term :: real
  r_average_strong_receival :: real
  r_average_weak_receival :: real
  r_active_links :: nat
  r_activated_links_ratio :: real
  r_censored_links :: nat

text \<open>
  The model object. \<open>agents\<close> is \<^verbatim>\<open>schedule.agents\<close> in insertion order; the same objects
  are the grid's contents (found by their \<open>pos\<close>) and, for citizens, the values of
  \<^verbatim>\<open>agent_dict\<close>. The grid's neighbourhood enumeration and the random generator are
  services of the libraries the program runs on: \<open>get_neighborhood\<close> is the grid's
  \<^verbatim>\<open>get_neighborhood(pos, moore=True, radius=r)\<close>, and \<open>rand\<close> is the stream of numbers
  in \<open>[0, 1)\<close> the generator hands out, \<open>rand_idx\<close> counting the draws made so far.
  \<open>link_to_censor\<close> is a Python set; the model keeps it as a duplicate-free list.
\<close>

record model =
  max_jail_term :: int
  arrest_prob_constant :: real
  movement :: bool
  max_iters :: int
  iteration :: int
  activation_type :: string
  citizen_count :: nat
  cop_count :: nat
  jail_count :: nat
  active_count :: nat
  quiescent_count :: nat
  average_jail_term :: real
  strong_weak_ratio :: real
  t_censor :: int
  p_link_censor :: real
  strong_ties_receival :: real
  weak_ties_receival :: real
  link_to_censor :: "(nat \<times> nat) list"
  active_links :: nat
  activated_link_ratio :: real
  censored_links :: nat
  G :: graph
  number_of_edges :: nat
  running :: bool
  agents :: "agent list"
  datacollector :: "report list"
  get_neighborhood :: "pos \<Rightarrow> nat \<Rightarrow> pos list"
  rand :: "nat \<Rightarrow> real"
  rand_idx :: nat

section \<open>Random draws\<close>

text \<open>
  \<^verbatim>\<open>random.random()\<close> takes the next number of the stream; \<^verbatim>\<open>random.choice(seq)\<close> and
  \<^verbatim>\<open>random.randint(a, b)\<close> take one number and scale it to an index of \<open>seq\<close>, to \<open>[a, b]\<close>.
\<close>

definition random_random :: "model \<Rightarrow> real \<times> model" where
  "random_random m = (rand m (rand_idx m), m\<lparr>rand_idx := Suc (rand_idx m)\<rparr>)"

definition random_choice :: "'a list \<Rightarrow> model \<Rightarrow> 'a \<times> model" where
  "random_choice xs m =
     (let (u, m') = random_random m
      in (xs ! min (length xs - 1) (nat \<lfloor>u * real (length xs)\<rfloor>), m'))"

definition random_randint :: "int \<Rightarrow> int \<Rightarrow> model \<Rightarrow> error + (int \<times> model)" where
  "random_randint a b m =
     (if b < a then Inl ValueError
      else let (u, m') = random_random m
           in Inr (max a (min b (a + \<lfloor>u * real_of_int (b - a + 1)\<rfloor>)), m'))"

section \<open>The influence network\<close>

definition canonical :: "nat \<Rightarrow> nat \<Rightarrow> nat \<times> nat" where
  "canonical u v = (if u < v then (u, v) else (v, u))"

definition neighbors :: "graph \<Rightarrow> nat \<Rightarrow> nat list" where
  "neighbors g n = filter (\<lambda>v. edge_data g (canonical n v) \<noteq> None) (nodes g)"

text \<open>The nodes at distance at most \<open>r\<close> from \<open>n\<close>.\<close>

fun nodes_within :: "graph \<Rightarrow> nat \<Rightarrow> nat \<Rightarrow> nat list" where
  "nodes_within g n 0 = [n]"
| "nodes_within g n (Suc r) =
     remdups (nodes_within g n r @ concat (map (neighbors g) (nodes_within g n r)))"

definition subgraph :: "graph \<Rightarrow> nat list \<Rightarrow> graph" where
  "subgraph g ns =
     \<lparr>nodes = filter (\<lambda>x. x \<in> set ns) (nodes g),
      edge_data = (\<lambda>e. if fst e \<in> set ns \<and> snd e \<in> set ns then edge_data g e else None)\<rparr>"

text \<open>
  \<^verbatim>\<open>nx.ego_graph(G, n, radius)\<close>: the subgraph induced by the nodes within \<open>radius\<close> of \<open>n\<close>,
  \<open>n\<close> included; a node that is not in the graph is an error.
\<close>

definition ego_graph :: "graph \<Rightarrow> nat \<Rightarrow> nat \<Rightarrow> error + graph" where
  "ego_graph g n radius =
     (if n \<in> set (nodes g) then Inr (subgraph g (nodes_within g n radius)) else Inl NodeNotFound)"

text \<open>
  Lines 126-130 of \<^verbatim>\<open>prepare_ego\<close>: every edge whose \<^verbatim>\<open>censor_steps\<close> is positive is
  collected and removed.
\<close>

definition remove_censored :: "graph \<Rightarrow> graph" where
  "remove_censored g =
     g\<lparr>edge_data := (\<lambda>e. case edge_data g e of
                              None \<Rightarrow> None
                            | Some c \<Rightarrow> if c > 0 then None else Some c)\<rparr>"

section \<open>Citizens\<close>

definition agent_by_id :: "model \<Rightarrow> nat \<Rightarrow> agent option" where
  "agent_by_id m i = find (\<lambda>a. unique_id a = i) (agents m)"

definition agent_dict :: "model \<Rightarrow> nat \<Rightarrow> agent option" where
  "agent_dict m i = find (\<lambda>a. unique_id a = i \<and> breed a = Citizen) (agents m)"

definition get_agents_by_ids :: "model \<Rightarrow> nat list \<Rightarrow> agent list" where
  "get_agents_by_ids m id_list = List.map_filter (agent_dict m) id_list"

text \<open>
  \<^verbatim>\<open>prepare_ego\<close> sets \<^verbatim>\<open>self.ego_network\<close>, \<^verbatim>\<open>self.degree_1_neighbors\<close> and
  \<^verbatim>\<open>self.degree_2_neighbors\<close>; the model returns the three.
\<close>

definition prepare_ego :: "model \<Rightarrow> agent \<Rightarrow> error + (graph \<times> agent list \<times> agent list)" where
  "prepare_ego m a =
     (case ego_graph (G m) (unique_id a) 2 of
        Inl e \<Rightarrow> Inl e
      | Inr ego \<Rightarrow>
          (case ego_graph (remove_censored ego) (unique_id a) 2 of
             Inl e \<Rightarrow> Inl e
           | Inr ego_network \<Rightarrow>
               let degree_1_neighbors = neighbors ego_network (unique_id a);
                   degree_2_neighbors =
                     filter (\<lambda>x. x \<notin> set degree_1_neighbors) (remdups (nodes ego_network))
               in Inr (ego_network,
                       get_agents_by_ids m degree_1_neighbors,
                       get_agents_by_ids m degree_2_neighbors)))"

definition is_cell_empty :: "model \<Rightarrow> pos \<Rightarrow> bool" where
  "is_cell_empty m c = list_all (\<lambda>b. pos b \<noteq> c) (agents m)"

definition get_cell_list_contents :: "model \<Rightarrow> pos list \<Rightarrow> agent list" where
  "get_cell_list_contents m cells = concat (map (\<lambda>c. filter (\<lambda>b. pos b = c) (agents m)) cells)"

text \<open>
  \<^verbatim>\<open>update_neighbors\<close> (the same in both classes) sets \<^verbatim>\<open>self.neighborhood\<close>,
  \<^verbatim>\<open>self.neighbors\<close> and \<^verbatim>\<open>self.empty_neighbors\<close>; the model returns the last two.
\<close>

definition update_neighbors :: "model \<Rightarrow> agent \<Rightarrow> agent list \<times> pos list" where
  "update_neighbors m a =
     (let neighborhood = get_neighborhood m (pos a) (vision a)
      in (get_cell_list_contents m neighborhood, filter (is_cell_empty m) neighborhood))"

definition arrest_formula :: "real \<Rightarrow> nat \<Rightarrow> real \<Rightarrow> real" where
  "arrest_formula k cops_in_vision actives =
     1 - exp (-1 * k * of_int \<lfloor>real cops_in_vision / actives\<rfloor>)"

definition update_estimated_arrest_probability :: "model \<Rightarrow> agent \<Rightarrow> agent list \<Rightarrow> error + agent"
  where
  "update_estimated_arrest_probability m a nbrs =
     (let cops_in_vision = length (filter (\<lambda>c. breed c = Cop) nbrs);
          actives = fold (\<lambda>c av. if breed c = Citizen \<and> condition c = Active \<and> jail_sentence c = 0
                                   then av + 1 else av) nbrs 1
      in if actives = 0 then Inl ZeroDivisionError
         else Inr (a\<lparr>actives_in_vision := Some actives,
                     arrest_probability :=
                       Some (arrest_formula (arrest_prob_constant m) cops_in_vision actives)\<rparr>))"

definition update_network_arrest_probability ::
  "model \<Rightarrow> agent \<Rightarrow> agent list \<Rightarrow> agent list \<Rightarrow> agent list \<Rightarrow> error + agent" where
  "update_network_arrest_probability m a nbrs degree_1_neighbors degree_2_neighbors =
     (let cops_in_vision = length (filter (\<lambda>c. breed c = Cop) nbrs);
          av0 = fold (\<lambda>c av. if breed c = Citizen \<and> condition c = Active \<and> jail_sentence c = 0
                               then av + 1 else av) nbrs 1;
          (av1, strong) =
            fold (\<lambda>c (av, s). if condition c = Active \<and> jail_sentence c = 0
                               then (av + strong_weak_ratio m, s + 1) else (av, s))
                 degree_1_neighbors (av0, 0);
          (av2, weak) =
            fold (\<lambda>c (av, w). if condition c = Active \<and> jail_sentence c = 0
                               then (av + 1, w + 1) else (av, w))
                 degree_2_neighbors (av1, 0)
      in if av2 = 0 then Inl ZeroDivisionError
         else Inr (a\<lparr>strong_ties_received := strong, weak_ties_received := weak,
                     actives_in_vision := Some av2,
                     arrest_probability :=
                       Some (arrest_formula (arrest_prob_constant m) cops_in_vision av2)\<rparr>))"

text \<open>Writing to an agent object: the agent with that identity is replaced.\<close>

definition set_agent :: "agent \<Rightarrow> model \<Rightarrow> model" where
  "set_agent a m = m\<lparr>agents := map (\<lambda>b. if unique_id b = unique_id a then a else b) (agents m)\<rparr>"

text \<open>
  The last two lines of both \<^verbatim>\<open>step\<close> methods: move to a random empty neighbouring cell.
\<close>

definition move_step :: "agent \<Rightarrow> pos list \<Rightarrow> model \<Rightarrow> model" where
  "move_step a empty_neighbors m =
     (if movement m \<and> empty_neighbors \<noteq> []
      then let (new_pos, m') = random_choice empty_neighbors m
           in set_agent (a\<lparr>pos := new_pos\<rparr>) m'
      else set_agent a m)"

definition citizen_step :: "agent \<Rightarrow> model \<Rightarrow> error + model" where
  "citizen_step a m =
     (if jail_sentence a \<noteq> 0
      then Inr (set_agent (a\<lparr>jail_sentence := jail_sentence a - 1\<rparr>) m)
      else if activation_type m = ''With SWN''
      then (case prepare_ego m a of
              Inl e \<Rightarrow> Inl e
            | Inr (ego_network, degree_1_neighbors, degree_2_neighbors) \<Rightarrow>
                let (nbrs, empty_neighbors) = update_neighbors m a
                in (case update_network_arrest_probability m a nbrs
                           degree_1_neighbors degree_2_neighbors of
                      Inl e \<Rightarrow> Inl e
                    | Inr a1 \<Rightarrow>
                        let net_risk = risk_aversion a1 * the (arrest_probability a1);
                            m1 = (if condition a1 = Active
                                  then m\<lparr>link_to_censor :=
                                          fold (\<lambda>v l. List.insert (canonical (unique_id a1) v) l)
                                               (neighbors ego_network (unique_id a1))
                                               (link_to_censor m)\<rparr>
                                  else m);
                            a2 = (if condition a1 = Quiescent \<and> grievance a1 - net_risk > threshold a1
                                  then a1\<lparr>condition := Active\<rparr> else a1)
                        in Inr (move_step a2 empty_neighbors m1)))
      else let (nbrs, empty_neighbors) = update_neighbors m a
           in (case update_estimated_arrest_probability m a nbrs of
                 Inl e \<Rightarrow> Inl e
               | Inr a1 \<Rightarrow>
                   let net_risk = risk_aversion a1 * the (arrest_probability a1);
                       a2 = (if condition a1 = Quiescent \<and> grievance a1 - net_risk > threshold a1
                             then a1\<lparr>condition := Active\<rparr> else a1)
                   in Inr (move_step a2 empty_neighbors m)))"

section \<open>Cops\<close>

definition cop_step :: "agent \<Rightarrow> model \<Rightarrow> error + model" where
  "cop_step a m =
     (let (nbrs, empty_neighbors) = update_neighbors m a;
          active_neighbors =
            filter (\<lambda>c. breed c = Citizen \<and> condition c = Active \<and> jail_sentence c = 0) nbrs
      in if active_neighbors \<noteq> []
         then let (arrestee, m1) = random_choice active_neighbors m
              in (case random_randint 0 (max_jail_term m1) m1 of
                    Inl e \<Rightarrow> Inl e
                  | Inr (sentence, m2) \<Rightarrow>
                      Inr (move_step a empty_neighbors
                             (set_agent (arrestee\<lparr>jail_sentence := sentence,
                                                  condition := Quiescent\<rparr>) m2)))
         else Inr (move_step a empty_neighbors m))"

section \<open>The scheduler\<close>

text \<open>
  One activation, by identity. The order in which a tick activates the agents is the
  scheduler's: insertion order, or a fresh shuffle each tick. It is an argument here.
\<close>

definition agent_step :: "nat \<Rightarrow> model \<Rightarrow> error + model" where
  "agent_step i m =
     (case agent_by_id m i of
        None \<Rightarrow> Inr m
      | Some a \<Rightarrow> (case breed a of Citizen \<Rightarrow> citizen_step a m | Cop \<Rightarrow> cop_step a m))"

fun schedule_step :: "nat list \<Rightarrow> model \<Rightarrow> error + model" where
  "schedule_step [] m = Inr m"
| "schedule_step (i # order) m =
     (case agent_step i m of Inl e \<Rightarrow> Inl e | Inr m' \<Rightarrow> schedule_step order m')"

section \<open>The model's tick\<close>

text \<open>The first loop of \<^verbatim>\<open>step\<close>: every positive censor countdown goes down by one.\<close>

definition decay :: "graph \<Rightarrow> graph" where
  "decay g =
     g\<lparr>edge_data := (\<lambda>e. map_option (\<lambda>c. if c > 0 then c - 1 else c) (edge_data g e))\<rparr>"

text \<open>
  The loop over \<^verbatim>\<open>link_to_censor\<close>. \<^verbatim>\<open>G[u][v]\<close> of an edge that is not in the graph is a
  \<^verbatim>\<open>KeyError\<close>.
\<close>

fun censor_links :: "(nat \<times> nat) list \<Rightarrow> model \<Rightarrow> error + model" where
  "censor_links [] m = Inr m"
| "censor_links (l # rest) m =
     (case edge_data (G m) (canonical (fst l) (snd l)) of
        None \<Rightarrow> Inl KeyError
      | Some c \<Rightarrow>
          if c = 0
          then let (x, m1) = random_random m
               in if x < p_link_censor m1
                  then censor_links rest
                         (m1\<lparr>G := (G m1)\<lparr>edge_data :=
                                      (edge_data (G m1))(canonical (fst l) (snd l) \<mapsto>
                                                           t_censor m1)\<rparr>,
                             censored_links := censored_links m1 + 1\<rparr>)
                  else censor_links rest m1
          else censor_links rest m)"

subsection \<open>Aggregates\<close>

definition py_div :: "real \<Rightarrow> real \<Rightarrow> error + real" where
  "py_div a b = (if b = 0 then Inl ZeroDivisionError else Inr (a / b))"

definition count_type_citizens :: "model \<Rightarrow> condition \<Rightarrow> nat" where
  "count_type_citizens m c =
     length (filter (\<lambda>a. breed a \<noteq> Cop \<and> \<not> jail_sentence a > 0 \<and> condition a = c) (agents m))"

definition count_jailed :: "model \<Rightarrow> nat" where
  "count_jailed m = length (filter (\<lambda>a. breed a = Citizen \<and> jail_sentence a > 0) (agents m))"

definition count_citizens :: "model \<Rightarrow> nat" where
  "count_citizens m = length (filter (\<lambda>a. breed a = Citizen) (agents m))"

definition count_cops :: "model \<Rightarrow> nat" where
  "count_cops m = length (filter (\<lambda>a. breed a = Cop) (agents m))"

definition get_active_link_ratio :: "model \<Rightarrow> error + real" where
  "get_active_link_ratio m = py_div (real (active_links m)) (real (number_of_edges m))"

definition get_average_jail_term :: "model \<Rightarrow> error + real" where
  "get_average_jail_term m =
     (let total = sum_list (map jail_sentence
                    (filter (\<lambda>a. breed a = Citizen \<and> jail_sentence a > 0) (agents m)))
      in if jail_count m = 0 then Inr 0 else py_div (real_of_int total) (real (jail_count m)))"

definition get_average_strong_ties_receival :: "model \<Rightarrow> error + real" where
  "get_average_strong_ties_receival m =
     (let free = filter (\<lambda>a. breed a = Citizen \<and> jail_sentence a = 0) (agents m);
          total = sum_list (map strong_ties_received free);
          count = length free
      in if total = 0 then Inr 0 else py_div (real total) (real count))"

definition get_average_weak_ties_receival :: "model \<Rightarrow> error + real" where
  "get_average_weak_ties_receival m =
     (let free = filter (\<lambda>a. breed a = Citizen \<and> jail_sentence a = 0) (agents m);
          total = sum_list (map weak_ties_received free);
          count = length free
      in if total = 0 then Inr 0 else py_div (real total) (real count))"

text \<open>
  \<^verbatim>\<open>datacollector.collect(model)\<close>: every model reporter is called and its value appended;
  a reporter that raises ends the collection. The per-agent table is left out.
\<close>

definition collect :: "model \<Rightarrow> error + model" where
  "collect m =
     (case get_average_jail_term m of
        Inl e \<Rightarrow> Inl e
      | Inr jt \<Rightarrow>
         (case get_average_strong_ties_receival m of
            Inl e \<Rightarrow> Inl e
          | Inr st \<Rightarrow>
             (case get_average_weak_ties_receival m of
                Inl e \<Rightarrow> Inl e
              | Inr wt \<Rightarrow>
                 (case get_active_link_ratio m of
                    Inl e \<Rightarrow> Inl e
                  | Inr lr \<Rightarrow>
                      Inr (m\<lparr>datacollector := datacollector m @
                               [\<lparr>r_quiescent = count_type_citizens m Quiescent,
                                 r_active = count_type_citizens m Active,
                                 r_jailed = count_jailed m,
                                 r_citizens = count_citizens m,
                                 r_cops = count_cops m,
                                 r_average_jailing_term = jt,
                                 r_average_strong_receival = st,
                                 r_average_weak_receival = wt,
                                 r_active_links = active_links m,
                                 r_activated_links_ratio = lr,
                                 r_censored_links = censored_links m\<rparr>]\<rparr>)))))"

subsection \<open>\<^verbatim>\<open>EpsteinCivilViolence.step\<close>\<close>

definition update_counts :: "model \<Rightarrow> error + model" where
  "update_counts m =
     (let m1 = m\<lparr>active_count := count_type_citizens m Active,
                 quiescent_count := count_type_citizens m Quiescent,
                 jail_count := count_jailed m\<rparr>
      in (case get_average_jail_term m1 of
            Inl e \<Rightarrow> Inl e
          | Inr jt \<Rightarrow>
             (case get_average_strong_ties_receival m1 of
                Inl e \<Rightarrow> Inl e
              | Inr st \<Rightarrow>
                 (case get_average_weak_ties_receival m1 of
                    Inl e \<Rightarrow> Inl e
                  | Inr wt \<Rightarrow>
                      let m2 = m1\<lparr>average_jail_term := jt, strong_ties_receival := st,
                                  weak_ties_receival := wt, iteration := iteration m1 + 1\<rparr>
                      in Inr (if iteration m2 > max_iters m2 then m2\<lparr>running := False\<rparr>
                              else m2)))))"

text \<open>The state in which the agents of a tick are activated: the countdowns have decayed.\<close>

definition begin_tick :: "model \<Rightarrow> model" where
  "begin_tick m = m\<lparr>censored_links := 0, G := decay (G m)\<rparr>"

text \<open>What \<^verbatim>\<open>step\<close> does once the scheduler has activated the agents.\<close>

definition end_tick :: "model \<Rightarrow> error + model" where
  "end_tick m =
     (let m1 = m\<lparr>active_links := length (link_to_censor m)\<rparr>
      in (case get_active_link_ratio m1 of
            Inl e \<Rightarrow> Inl e
          | Inr lr \<Rightarrow>
             (case censor_links (link_to_censor m1) (m1\<lparr>activated_link_ratio := lr\<rparr>) of
                Inl e \<Rightarrow> Inl e
              | Inr m2 \<Rightarrow>
                 (case collect (m2\<lparr>link_to_censor := []\<rparr>) of
                    Inl e \<Rightarrow> Inl e
                  | Inr m3 \<Rightarrow> update_counts m3))))"

definition step :: "nat list \<Rightarrow> model \<Rightarrow> error + model" where
  "step order m =
     (case schedule_step order (begin_tick m) of Inl e \<Rightarrow> Inl e | Inr m1 \<Rightarrow> end_tick m1)"

text \<open>Several ticks, one activation order for each.\<close>

fun run :: "nat list list \<Rightarrow> model \<Rightarrow> error + model" where
  "run [] m = Inr m"
| "run (order # orders) m = (case step order m of Inl e \<Rightarrow> Inl e | Inr m' \<Rightarrow> run orders m')"

section \<open>Construction\<close>

text \<open>
  The arguments of \<^verbatim>\<open>EpsteinCivilViolence.__init__\<close>. The grid service and the random stream
  come with them. The small-world generator \<^verbatim>\<open>watts_strogatz_graph(n, k, p)\<close> belongs to the
  graph library and draws from a random state of its own: it is the argument
  \<open>arg_generator\<close>, which rejects its input or returns the nodes and the edges of a graph.
\<close>

record params =
  arg_width :: nat
  arg_height :: nat
  arg_citizen_density :: real
  arg_cop_density :: real
  arg_citizen_vision :: nat
  arg_cop_vision :: nat
  arg_legitimacy :: real
  arg_max_jail_term :: int
  arg_active_threshold :: real
  arg_arrest_prob_constant :: real
  arg_movement :: bool
  arg_max_iters :: int
  arg_activation_type :: string
  arg_lattice_neighbor :: int
  arg_rewire_prob :: real
  arg_strong_weak_ratio :: real
  arg_t_censor :: int
  arg_p_link_censor :: real
  arg_generator :: "nat \<Rightarrow> int \<Rightarrow> real \<Rightarrow> error + (nat list \<times> (nat \<times> nat) list)"
  arg_get_neighborhood :: "pos \<Rightarrow> nat \<Rightarrow> pos list"
  arg_rand :: "nat \<Rightarrow> real"

definition new_citizen :: "nat \<Rightarrow> pos \<Rightarrow> real \<Rightarrow> real \<Rightarrow> real \<Rightarrow> real \<Rightarrow> nat \<Rightarrow> agent" where
  "new_citizen uid p h legit ra thr vis =
     \<lparr>unique_id = uid, breed = Citizen, pos = p, vision = vis, hardship = h,
      regime_legitimacy = legit, risk_aversion = ra, threshold = thr, condition = Quiescent,
      jail_sentence = 0, grievance = h * (1 - legit), arrest_probability = None,
      actives_in_vision = None, strong_ties_received = 0, weak_ties_received = 0\<rparr>"

definition new_cop :: "nat \<Rightarrow> pos \<Rightarrow> nat \<Rightarrow> agent" where
  "new_cop uid p vis =
     \<lparr>unique_id = uid, breed = Cop, pos = p, vision = vis, hardship = 0,
      regime_legitimacy = 0, risk_aversion = 0, threshold = 0, condition = Quiescent,
      jail_sentence = 0, grievance = 0, arrest_probability = None,
      actives_in_vision = None, strong_ties_received = 0, weak_ties_received = 0\<rparr>"

definition initial_model :: "params \<Rightarrow> model" where
  "initial_model p =
     \<lparr>max_jail_term = arg_max_jail_term p,
      arrest_prob_constant = arg_arrest_prob_constant p,
      movement = arg_movement p,
      max_iters = arg_max_iters p,
      iteration = 0,
      activation_type = arg_activation_type p,
      citizen_count = 0, cop_count = 0, jail_count = 0, active_count = 0, quiescent_count = 0,
      average_jail_term = 0,
      strong_weak_ratio = arg_strong_weak_ratio p,
      t_censor = arg_t_censor p,
      p_link_censor = arg_p_link_censor p,
      strong_ties_receival = 0, weak_ties_receival = 0,
      link_to_censor = [], active_links = 0, activated_link_ratio = 0, censored_links = 0,
      G = \<lparr>nodes = [], edge_data = Map.empty\<rparr>, number_of_edges = 0, running = False,
      agents = [], datacollector = [],
      get_neighborhood = arg_get_neighborhood p,
      rand = arg_rand p, rand_idx = 0\<rparr>"

text \<open>Lines 137-138: the check on the two densities.\<close>

definition density_check :: "params \<Rightarrow> error + unit" where
  "density_check p =
     (if arg_cop_density p + arg_citizen_density p > 1 then Inl ValueError else Inr ())"

definition coord_iter :: "nat \<Rightarrow> nat \<Rightarrow> pos list" where
  "coord_iter w h = concat (map (\<lambda>x. map (\<lambda>y. (int x, int y)) [0..<h]) [0..<w])"

text \<open>
  The placement loop, with its three variables: the model, \<^verbatim>\<open>unique_id\<close> and
  \<^verbatim>\<open>list_citizen_ids\<close>.
\<close>

fun place_agents :: "params \<Rightarrow> pos list \<Rightarrow> model \<times> nat \<times> nat list \<Rightarrow> model \<times> nat \<times> nat list"
  where
  "place_agents p [] s = s"
| "place_agents p (c # cs) (m, uid, ids) =
     (let (x, m1) = random_random m
      in if x < arg_cop_density p
         then place_agents p cs
                (m1\<lparr>agents := agents m1 @ [new_cop uid c (arg_cop_vision p)]\<rparr>, uid + 1, ids)
         else let (y, m2) = random_random m1
              in if y < arg_cop_density p + arg_citizen_density p
                 then let (h, m3) = random_random m2;
                          (r, m4) = random_random m3
                      in place_agents p cs
                           (m4\<lparr>agents := agents m4 @
                                  [new_citizen uid c h (arg_legitimacy p) r
                                     (arg_active_threshold p) (arg_citizen_vision p)]\<rparr>,
                            uid + 1, ids @ [uid])
                 else place_agents p cs (m2, uid, ids))"

text \<open>
  \<^verbatim>\<open>nx.relabel_nodes(G, dict(zip(G, list_citizen_ids)))\<close> followed by
  \<^verbatim>\<open>nx.set_edge_attributes(G, 0, "censor_steps")\<close>: the generated graph with every node
  renamed and every edge's countdown at 0.
\<close>

definition relabel :: "(nat \<times> nat) list \<Rightarrow> nat \<Rightarrow> nat" where
  "relabel mapping x = (case map_of mapping x of None \<Rightarrow> x | Some y \<Rightarrow> y)"

definition relabelled_edges :: "(nat \<times> nat) list \<Rightarrow> (nat \<times> nat) list \<Rightarrow> (nat \<times> nat) list" where
  "relabelled_edges mapping es =
     remdups (map (\<lambda>e. canonical (relabel mapping (fst e)) (relabel mapping (snd e))) es)"

definition relabel_nodes :: "nat list \<Rightarrow> (nat \<times> nat) list \<Rightarrow> (nat \<times> nat) list \<Rightarrow> graph" where
  "relabel_nodes ns es mapping =
     \<lparr>nodes = map (relabel mapping) ns,
      edge_data = map_of (map (\<lambda>e. (e, 0)) (relabelled_edges mapping es))\<rparr>"

definition init :: "params \<Rightarrow> error + model" where
  "init p =
     (case density_check p of
        Inl e \<Rightarrow> Inl e
      | Inr _ \<Rightarrow>
          let (m, uid, list_citizen_ids) =
                place_agents p (coord_iter (arg_width p) (arg_height p)) (initial_model p, 0, [])
          in (case arg_generator p (length list_citizen_ids) (arg_lattice_neighbor p)
                     (arg_rewire_prob p) of
                Inl e \<Rightarrow> Inl e
              | Inr (ns, es) \<Rightarrow>
                  let mapping = zip ns list_citizen_ids;
                      m1 = m\<lparr>G := relabel_nodes ns es mapping,
                             number_of_edges := length (relabelled_edges mapping es),
                             running := True\<rparr>
                  in (case collect m1 of
                        Inl e \<Rightarrow> Inl e
                      | Inr m2 \<Rightarrow>
                          Inr (m2\<lparr>citizen_count :=
                                    count_type_citizens m2 Quiescent +
                                    count_type_citizens m2 Active + count_jailed m2,
                                  cop_count := count_cops m2\<rparr>))))"

section \<open>Example worlds\<close>

text \<open>
  The small-world generator of the graph library, \<^verbatim>\<open>nx.watts_strogatz_graph(n, k, p)\<close>: it
  raises \<^verbatim>\<open>NetworkXError\<close> when \<open>k > n\<close>, returns the complete graph when \<open>k = n\<close>, and
  otherwise joins each node to its \<open>k div 2\<close> successors on the ring and rewires each edge
  with probability \<open>p\<close>. An edge is rewired only when a draw of the library's own random
  source is below \<open>p\<close>, so nothing is rewired for \<open>p \<le> 0\<close>; the rewiring pass for
  \<open>p > 0\<close> is the parameter \<open>rewire\<close>.
\<close>

definition complete_graph :: "nat \<Rightarrow> (nat \<times> nat) list" where
  "complete_graph n = concat (map (\<lambda>u. map (\<lambda>v. (u, v)) [u + 1..<n]) [0..<n])"

definition ring_lattice :: "nat \<Rightarrow> int \<Rightarrow> (nat \<times> nat) list" where
  "ring_lattice n k =
     concat (map (\<lambda>j. map (\<lambda>i. (i, (i + j) mod n)) [0..<n]) [1..<nat (k div 2) + 1])"

definition watts_strogatz_graph ::
  "((nat \<times> nat) list \<Rightarrow> (nat \<times> nat) list) \<Rightarrow> nat \<Rightarrow> int \<Rightarrow> real \<Rightarrow>
   error + (nat list \<times> (nat \<times> nat) list)" where
  "watts_strogatz_graph rewire n k p =
     (if int n < k then Inl NetworkXError
      else if k = int n then Inr ([0..<n], complete_graph n)
      else Inr ([0..<n], if 0 < p then rewire (ring_lattice n k) else ring_lattice n k))"

text \<open>A grid service for the examples: the Moore neighbourhood on a torus, centre excluded.\<close>

definition torus_moore :: "nat \<Rightarrow> nat \<Rightarrow> pos \<Rightarrow> nat \<Rightarrow> pos list" where
  "torus_moore w h p r =
     remdups (filter (\<lambda>c. c \<noteq> p)
       (concat (map (\<lambda>dx. map (\<lambda>dy. ((fst p + dx) mod int w, (snd p + dy) mod int h))
                              [- int r..int r]) [- int r..int r])))"

text \<open>
  Three cells in a row, the two densities adding up to exactly 1, every draw of the random
  stream \<open>1/2\<close>: each cell receives a citizen.
\<close>

definition example_params :: params where
  "example_params =
     \<lparr>arg_width = 3, arg_height = 1, arg_citizen_density = 1 / 2, arg_cop_density = 1 / 2,
      arg_citizen_vision = 1, arg_cop_vision = 1, arg_legitimacy = 4 / 5, arg_max_jail_term = 30,
      arg_active_threshold = 1 / 10, arg_arrest_prob_constant = 23 / 10, arg_movement = False,
      arg_max_iters = 1000, arg_activation_type = ''Without SWN'', arg_lattice_neighbor = 2,
      arg_rewire_prob = 0, arg_strong_weak_ratio = 5, arg_t_censor = 5, arg_p_link_censor = 1,
      arg_generator = watts_strogatz_graph id, arg_get_neighborhood = torus_moore 3 1,
      arg_rand = (\<lambda>i. 1 / 2)\<rparr>"

definition example_citizen :: "nat \<Rightarrow> pos \<Rightarrow> agent" where
  "example_citizen i p = new_citizen i p (1 / 2) (4 / 5) (1 / 2) (1 / 10) 1"

text \<open>
  Two citizens, both in jail at the start of a tick, with terms 1 and 4; \<open>jail_count\<close> holds
  the 2 that the previous tick counted. The two are joined by the one edge of the network.
\<close>

definition two_jailed_model :: model where
  "two_jailed_model =
     (initial_model example_params)
       \<lparr>agents := [(example_citizen 0 (0, 0))\<lparr>jail_sentence := 1\<rparr>,
                   (example_citizen 1 (1, 0))\<lparr>jail_sentence := 4\<rparr>],
        jail_count := 2, number_of_edges := 1,
        G := \<lparr>nodes = [0, 1], edge_data = [(0, 1) \<mapsto> 0]\<rparr>\<rparr>"

text \<open>
  Two citizens side by side, joined by the one edge of the network, in network mode; every
  pending edge is censored (\<open>p_link_censor = 1\<close>) for \<open>t_censor = 5\<close> ticks. In
  \<open>censor_world\<close> citizen 0 is already Active; in \<open>rising_world\<close> citizen 0 is Quiescent
  with grievance 1 and becomes Active when it is activated.
\<close>

definition network_base :: model where
  "network_base =
     (initial_model example_params)
       \<lparr>activation_type := ''With SWN'', number_of_edges := 1,
        G := \<lparr>nodes = [0, 1], edge_data = [(0, 1) \<mapsto> 0]\<rparr>\<rparr>"

definition censor_world :: model where
  "censor_world =
     network_base\<lparr>agents := [(example_citizen 0 (0, 0))\<lparr>condition := Active\<rparr>,
                              example_citizen 1 (1, 0)]\<rparr>"

definition rising_world :: model where
  "rising_world =
     network_base\<lparr>agents := [new_citizen 0 (0, 0) 1 0 (1 / 2) (1 / 10) 1,
                              example_citizen 1 (1, 0)]\<rparr>"

text \<open>A cop next to a citizen that is in jail for two more ticks, without the network.\<close>

definition jail_world :: model where
  "jail_world =
     (initial_model example_params)
       \<lparr>agents := [new_cop 0 (0, 0) 1, (example_citizen 1 (1, 0))\<lparr>jail_sentence := 2\<rparr>]\<rparr>"

text \<open>
  A cop next to a citizen that is out of jail and Active, without the network. Every draw of
  the random stream is \<open>1/2\<close>, which makes a sentence drawn from \<open>0 .. 30\<close> equal to 15.
\<close>

definition arrest_world :: model where
  "arrest_world =
     (initial_model example_params)
       \<lparr>agents := [new_cop 0 (0, 0) 1, (example_citizen 1 (1, 0))\<lparr>condition := Active\<rparr>]\<rparr>"



section \<open>Reference definitions\<close>

text \<open>
  The value that \<^verbatim>\<open>update_network_arrest_probability\<close> accumulates in
  \<^verbatim>\<open>actives_in_vision\<close>, in closed form, from the three lists it loops over.
\<close>

definition network_actives :: "model \<Rightarrow> agent list \<Rightarrow> agent list \<Rightarrow> agent list \<Rightarrow> real" where
  "network_actives m nbrs d1 d2 =
     1 + real (length (filter (\<lambda>c. breed c = Citizen \<and> condition c = Active \<and> jail_sentence c = 0) nbrs))
       + strong_weak_ratio m * real (length (filter (\<lambda>c. condition c = Active \<and> jail_sentence c = 0) d1))
       + real (length (filter (\<lambda>c. condition c = Active \<and> jail_sentence c = 0) d2))"

definition spatial_actives :: "agent list \<Rightarrow> real" where
  "spatial_actives nbrs =
     1 + real (length (filter (\<lambda>c. breed c = Citizen \<and> condition c = Active \<and> jail_sentence c = 0) nbrs))"

text \<open>
  The edges of the network that join \<open>i\<close> to a node of the graph and are not censored
  (countdown not positive), in canonical form.
\<close>

definition live_incident_edges :: "graph \<Rightarrow> nat \<Rightarrow> (nat \<times> nat) set" where
  "live_incident_edges g i =
     canonical i ` set (filter (\<lambda>v. case edge_data g (canonical i v) of
                                      None \<Rightarrow> False | Some c \<Rightarrow> \<not> c > 0) (nodes g))"

text \<open>
  What the activation of agent \<open>i\<close> in state \<open>m\<close> adds to the pending set: the live edges
  at \<open>i\<close> when \<open>i\<close> is a citizen out of jail whose condition is Active as its activation
  begins, in network mode; nothing otherwise.
\<close>

definition contributes :: "model \<Rightarrow> nat \<Rightarrow> (nat \<times> nat) set" where
  "contributes m i =
     (case agent_by_id m i of
        None \<Rightarrow> {}
      | Some a \<Rightarrow>
          if breed a = Citizen \<and> jail_sentence a = 0 \<and> condition a = Active \<and>
             activation_type m = ''With SWN''
          then live_incident_edges (G m) i else {})"

text \<open>The contributions of a tick, each taken in the state in which the agent is activated.\<close>

fun pending_of_tick :: "nat list \<Rightarrow> model \<Rightarrow> (nat \<times> nat) set" where
  "pending_of_tick [] m = {}"
| "pending_of_tick (i # order) m =
     contributes m i \<union>
     (case agent_step i m of Inl e \<Rightarrow> {} | Inr m' \<Rightarrow> pending_of_tick order m')"

text \<open>
  Two invariants of the agent population: identities are unique, and an agent with a
  running jail sentence is Quiescent (an arrest sets both at once).
\<close>

definition unique_ids :: "model \<Rightarrow> bool" where
  "unique_ids m = distinct (map unique_id (agents m))"

definition jailed_are_quiescent :: "model \<Rightarrow> bool" where
  "jailed_are_quiescent m =
     list_all (\<lambda>a. jail_sentence a \<noteq> 0 \<longrightarrow> condition a = Quiescent) (agents m)"

text \<open>The effect of an arrest on the agent population: \<open>None\<close> when the cop arrests nobody.\<close>

definition apply_arrest :: "(agent \<times> int) option \<Rightarrow> agent \<Rightarrow> agent" where
  "apply_arrest arrest b =
     (case arrest of
        None \<Rightarrow> b
      | Some (r, s) \<Rightarrow>
          if unique_id b = unique_id r then r\<lparr>jail_sentence := s, condition := Quiescent\<rparr>
          else b)"

section \<open>Frames\<close>

lemma citizen_step_frame:
  assumes "citizen_step a m = Inr m'"
  shows "m' = m\<lparr>agents := agents m', link_to_censor := link_to_censor m', rand_idx := rand_idx m'\<rparr>"
  using assms
  by (auto simp: citizen_step_def move_step_def set_agent_def random_choice_def random_random_def
      Let_def split: if_splits sum.splits prod.splits)

lemma cop_step_frame:
  assumes "cop_step a m = Inr m'"
  shows "m' = m\<lparr>agents := agents m', link_to_censor := link_to_censor m', rand_idx := rand_idx m'\<rparr>"
  using assms
  by (auto simp: cop_step_def move_step_def set_agent_def random_choice_def random_random_def
      random_randint_def Let_def split: if_splits sum.splits prod.splits)

lemma agent_step_frame:
  assumes "agent_step i m = Inr m'"
  shows "m' = m\<lparr>agents := agents m', link_to_censor := link_to_censor m', rand_idx := rand_idx m'\<rparr>"
proof (cases "agent_by_id m i")
  case None
  then show ?thesis using assms by (simp add: agent_step_def)
next
  case (Some a)
  then show ?thesis
    using assms citizen_step_frame[of a m m'] cop_step_frame[of a m m']
    by (cases "breed a") (simp_all add: agent_step_def)
qed

lemma schedule_step_frame:
  "schedule_step order m = Inr m' \<Longrightarrow>
   m' = m\<lparr>agents := agents m', link_to_censor := link_to_censor m', rand_idx := rand_idx m'\<rparr>"
proof (induction order arbitrary: m)
  case Nil
  then show ?case by simp
next
  case (Cons i order)
  from Cons.prems obtain m1 where s1: "agent_step i m = Inr m1" and s2: "schedule_step order m1 = Inr m'"
    by (auto split: sum.splits)
  have e1: "m1 = m\<lparr>agents := agents m1, link_to_censor := link_to_censor m1, rand_idx := rand_idx m1\<rparr>"
    by (rule agent_step_frame[OF s1])
  have e2: "m' = m1\<lparr>agents := agents m', link_to_censor := link_to_censor m', rand_idx := rand_idx m'\<rparr>"
    by (rule Cons.IH[OF s2])
  have "m1\<lparr>agents := agents m', link_to_censor := link_to_censor m', rand_idx := rand_idx m'\<rparr>
      = m\<lparr>agents := agents m', link_to_censor := link_to_censor m', rand_idx := rand_idx m'\<rparr>"
    by (subst e1) simp
  with e2 show ?case by simp
qed

lemma schedule_step_G: "schedule_step order m = Inr m' \<Longrightarrow> G m' = G m"
  using arg_cong[OF schedule_step_frame, of order m m' G] by simp

lemma schedule_step_t_censor: "schedule_step order m = Inr m' \<Longrightarrow> t_censor m' = t_censor m"
  using arg_cong[OF schedule_step_frame, of order m m' t_censor] by simp

section \<open>Resolution\<close>

lemma censor_links_effect:
  "censor_links ls m = Inr m' \<Longrightarrow>
     nodes (G m') = nodes (G m) \<and> t_censor m' = t_censor m \<and> agents m' = agents m \<and>
     (\<forall>e. edge_data (G m') e = edge_data (G m) e \<or>
          (edge_data (G m) e = Some 0 \<and> edge_data (G m') e = Some (t_censor m)))"
proof (induction ls arbitrary: m)
  case Nil
  then show ?case by simp
next
  case (Cons l ls)
  show ?case
  proof (cases "edge_data (G m) (canonical (fst l) (snd l))")
    case None
    then show ?thesis using Cons.prems by simp
  next
    case (Some c)
    show ?thesis
    proof (cases "c = 0 \<and> rand m (rand_idx m) < p_link_censor m")
      case True
      let ?m1 = "m\<lparr>rand_idx := Suc (rand_idx m)\<rparr>"
      let ?m2 = "?m1\<lparr>G := (G ?m1)\<lparr>edge_data := (edge_data (G ?m1))(canonical (fst l) (snd l) \<mapsto> t_censor ?m1)\<rparr>,
                       censored_links := censored_links ?m1 + 1\<rparr>"
      have "censor_links ls ?m2 = Inr m'"
        using Cons.prems Some True by (simp add: random_random_def)
      note ih = Cons.IH[OF this]
      have g2: "edge_data (G ?m2) e =
                  (if e = canonical (fst l) (snd l) then Some (t_censor m) else edge_data (G m) e)" for e
        by simp
      have "edge_data (G m') e = edge_data (G m) e \<or>
            (edge_data (G m) e = Some 0 \<and> edge_data (G m') e = Some (t_censor m))" for e
      proof (cases "e = canonical (fst l) (snd l)")
        case True
        from ih have "edge_data (G m') e = edge_data (G ?m2) e \<or>
            (edge_data (G ?m2) e = Some 0 \<and> edge_data (G m') e = Some (t_censor ?m2))" by blast
        then have "edge_data (G m') e = Some (t_censor m)" using True g2[of e] by auto
        moreover have "edge_data (G m) e = Some 0" using Some \<open>c = 0 \<and> _\<close> True by simp
        ultimately show ?thesis by simp
      next
        case False
        from ih have "edge_data (G m') e = edge_data (G ?m2) e \<or>
            (edge_data (G ?m2) e = Some 0 \<and> edge_data (G m') e = Some (t_censor ?m2))" by blast
        then show ?thesis using False g2[of e] by auto
      qed
      moreover have "nodes (G m') = nodes (G m) \<and> t_censor m' = t_censor m \<and> agents m' = agents m"
        using ih by simp
      ultimately show ?thesis by blast
    next
      case False
      then have "censor_links ls m = Inr m' \<or> censor_links ls (m\<lparr>rand_idx := Suc (rand_idx m)\<rparr>) = Inr m'"
        using Cons.prems Some by (auto simp: random_random_def split: if_splits)
      then show ?thesis using Cons.IH by fastforce
    qed
  qed
qed

lemma collect_frame: "collect m = Inr m' \<Longrightarrow> m' = m\<lparr>datacollector := datacollector m'\<rparr>"
  by (auto simp: collect_def split: sum.splits)

lemma update_counts_frame: "update_counts m = Inr m' \<Longrightarrow> G m' = G m \<and> agents m' = agents m \<and> t_censor m' = t_censor m \<and> link_to_censor m' = link_to_censor m"
  by (auto simp: update_counts_def Let_def split: sum.splits if_splits)

lemma end_tick_effect:
  assumes "end_tick m = Inr m'"
  shows "nodes (G m') = nodes (G m) \<and> t_censor m' = t_censor m \<and> agents m' = agents m \<and>
         link_to_censor m' = [] \<and>
     (\<forall>e. edge_data (G m') e = edge_data (G m) e \<or>
          (edge_data (G m) e = Some 0 \<and> edge_data (G m') e = Some (t_censor m)))"
proof -
  from assms obtain lr m2 m3 where
    c: "censor_links (link_to_censor m) (m\<lparr>active_links := length (link_to_censor m), activated_link_ratio := lr\<rparr>) = Inr m2"
    and k: "collect (m2\<lparr>link_to_censor := []\<rparr>) = Inr m3" and u: "update_counts m3 = Inr m'"
    by (auto simp: end_tick_def Let_def split: sum.splits)
  note c' = censor_links_effect[OF c]
  have m3: "G m3 = G m2 \<and> agents m3 = agents m2 \<and> t_censor m3 = t_censor m2 \<and> link_to_censor m3 = []"
    using arg_cong[OF collect_frame[OF k], of G] arg_cong[OF collect_frame[OF k], of agents]
      arg_cong[OF collect_frame[OF k], of t_censor] arg_cong[OF collect_frame[OF k], of link_to_censor]
    by simp
  show ?thesis using c' m3 update_counts_frame[OF u] by simp
qed


section \<open>Countdown over ticks\<close>

lemma edge_data_begin_tick:
  "edge_data (G (begin_tick m)) e = map_option (\<lambda>c. if c > 0 then c - 1 else c) (edge_data (G m) e)"
  by (simp add: begin_tick_def decay_def)

lemma step_countdown:
  assumes "step order m = Inr m'"
  shows "t_censor m' = t_censor m \<and>
         (\<forall>e. edge_data (G m') e = edge_data (G (begin_tick m)) e \<or>
              (edge_data (G (begin_tick m)) e = Some 0 \<and> edge_data (G m') e = Some (t_censor m)))"
proof -
  from assms obtain m1 where s: "schedule_step order (begin_tick m) = Inr m1" and e: "end_tick m1 = Inr m'"
    by (auto simp: step_def split: sum.splits)
  have "G m1 = G (begin_tick m)" "t_censor m1 = t_censor m"
    using schedule_step_G[OF s] schedule_step_t_censor[OF s] by (simp_all add: begin_tick_def)
  then show ?thesis using end_tick_effect[OF e] by simp
qed

lemma run_countdown:
  "run orders m0 = Inr m \<Longrightarrow> edge_data (G m0) e = Some c \<Longrightarrow> int (length orders) < c \<Longrightarrow>
   edge_data (G m) e = Some (c - int (length orders)) \<and> t_censor m = t_censor m0"
proof (induction orders arbitrary: m0 c)
  case Nil
  then show ?case by simp
next
  case (Cons order orders)
  from Cons.prems(1) obtain m1 where s: "step order m0 = Inr m1" and r: "run orders m1 = Inr m"
    by (auto split: sum.splits)
  have c: "1 < c" using Cons.prems(3) by simp
  have "edge_data (G (begin_tick m0)) e = Some (c - 1)"
    using Cons.prems(2) c by (simp add: edge_data_begin_tick)
  moreover have "edge_data (G m1) e = edge_data (G (begin_tick m0)) e \<or>
              (edge_data (G (begin_tick m0)) e = Some 0 \<and> edge_data (G m1) e = Some (t_censor m0))"
    using step_countdown[OF s] by blast
  ultimately have "edge_data (G m1) e = Some (c - 1)" using c by auto
  moreover have "int (length orders) < c - 1" using Cons.prems(3) by simp
  ultimately have "edge_data (G m) e = Some (c - 1 - int (length orders)) \<and> t_censor m = t_censor m1"
    using Cons.IH[OF r] by blast
  then show ?case using step_countdown[OF s] by simp
qed

section \<open>Ego views\<close>

lemma nodes_within_self: "n \<in> set (nodes_within g n r)"
  by (induction r) auto

lemma nodes_within_mono: "set (nodes_within g n r) \<subseteq> set (nodes_within g n (Suc r))"
  by auto

lemma neighbors_within: "x \<in> set (nodes_within g n r) \<Longrightarrow> v \<in> set (neighbors g x) \<Longrightarrow> v \<in> set (nodes_within g n (Suc r))"
  by auto

lemma neighbor_within_2: "v \<in> set (neighbors g n) \<Longrightarrow> v \<in> set (nodes_within g n 2)"
proof -
  assume v: "v \<in> set (neighbors g n)"
  have "n \<in> set (nodes_within g n 0)" by simp
  then have "v \<in> set (nodes_within g n (Suc 0))" using v neighbors_within by blast
  then have "v \<in> set (nodes_within g n (Suc (Suc 0)))" using nodes_within_mono by blast
  then show ?thesis by (simp add: numeral_2_eq_2)
qed

lemma fst_snd_canonical: "{fst (canonical u v), snd (canonical u v)} = {u, v}"
  by (auto simp: canonical_def)

lemma prepare_ego_result:
  assumes "prepare_ego m a = Inr (ego, d1, d2)"
  shows "unique_id a \<in> set (nodes (G m))"
    and "ego = subgraph (remove_censored (subgraph (G m) (nodes_within (G m) (unique_id a) 2)))
                 (nodes_within (remove_censored (subgraph (G m) (nodes_within (G m) (unique_id a) 2)))
                    (unique_id a) 2)"
    and "d1 = get_agents_by_ids m (neighbors ego (unique_id a))"
    and "d2 = get_agents_by_ids m
                (filter (\<lambda>x. x \<notin> set (neighbors ego (unique_id a))) (remdups (nodes ego)))"
  using assms
  by (auto simp: prepare_ego_def ego_graph_def Let_def split: sum.splits if_splits)

lemma censored_edge_excluded:
  assumes "prepare_ego m a = Inr (ego, d1, d2)" "edge_data (G m) e = Some c" "c > 0"
  shows "edge_data ego e = None"
  using assms(2,3) unfolding prepare_ego_result(2)[OF assms(1)]
  by (simp add: subgraph_def remove_censored_def)

lemma live_edge_included:
  assumes p: "prepare_ego m a = Inr (ego, d1, d2)"
    and e: "edge_data (G m) (canonical (unique_id a) v) = Some c" and c: "\<not> c > 0"
    and v: "v \<in> set (nodes (G m))"
  shows "edge_data ego (canonical (unique_id a) v) = Some c \<and> v \<in> set (neighbors ego (unique_id a))"
proof -
  let ?i = "unique_id a"
  let ?N = "nodes_within (G m) ?i 2"
  let ?ego1 = "subgraph (G m) ?N"
  let ?pr = "remove_censored ?ego1"
  let ?N' = "nodes_within ?pr ?i 2"
  have i: "?i \<in> set (nodes (G m))" by (rule prepare_ego_result(1)[OF p])
  have vn: "v \<in> set (neighbors (G m) ?i)" using e v by (simp add: neighbors_def)
  have iN: "?i \<in> set ?N" by (rule nodes_within_self)
  have vN: "v \<in> set ?N" by (rule neighbor_within_2[OF vn])
  have fs: "fst (canonical ?i v) \<in> set ?N \<and> snd (canonical ?i v) \<in> set ?N"
    using iN vN by (auto simp: canonical_def)
  have e1: "edge_data ?pr (canonical ?i v) = Some c"
    using fs e c by (simp add: subgraph_def remove_censored_def)
  have "v \<in> set (nodes ?pr)" using v vN by (simp add: subgraph_def remove_censored_def)
  then have vn': "v \<in> set (neighbors ?pr ?i)" using e1 by (simp add: neighbors_def)
  have iN': "?i \<in> set ?N'" by (rule nodes_within_self)
  have vN': "v \<in> set ?N'" by (rule neighbor_within_2[OF vn'])
  have fs': "fst (canonical ?i v) \<in> set ?N' \<and> snd (canonical ?i v) \<in> set ?N'"
    using iN' vN' by (auto simp: canonical_def)
  have ego: "ego = subgraph ?pr ?N'" by (rule prepare_ego_result(2)[OF p])
  have e2: "edge_data ego (canonical ?i v) = Some c"
    unfolding ego using fs' e1 by (simp add: subgraph_def)
  have "v \<in> set (nodes ego)" unfolding ego using \<open>v \<in> set (nodes ?pr)\<close> vN' by (simp add: subgraph_def)
  then show ?thesis using e2 by (simp add: neighbors_def)
qed

section \<open>The arrest-probability estimate\<close>

lemma fold_count:
  "fold (\<lambda>c av. if P c then av + 1 else av) xs (a::real) = a + real (length (filter P xs))"
  by (induction xs arbitrary: a) auto

lemma fold_count_pair:
  "fold (\<lambda>c (av, s). if P c then (av + w, s + 1) else (av, s)) xs (a::real, n::nat) =
     (a + w * real (length (filter P xs)), n + length (filter P xs))"
  by (induction xs arbitrary: a n) (auto simp: algebra_simps)

lemma spatial_actives_ge_1: "1 \<le> spatial_actives nbrs"
  by (simp add: spatial_actives_def)

lemma network_actives_ge_1: "0 \<le> strong_weak_ratio m \<Longrightarrow> 1 \<le> network_actives m nbrs d1 d2"
  by (simp add: network_actives_def)

lemma update_estimated_arrest_probability_eq:
  "update_estimated_arrest_probability m a nbrs =
     Inr (a\<lparr>actives_in_vision := Some (spatial_actives nbrs),
            arrest_probability :=
              Some (arrest_formula (arrest_prob_constant m)
                      (length (filter (\<lambda>c. breed c = Cop) nbrs)) (spatial_actives nbrs))\<rparr>)"
proof -
  have "spatial_actives nbrs \<noteq> 0" using spatial_actives_ge_1[of nbrs] by linarith
  then show ?thesis
    by (simp add: update_estimated_arrest_probability_def fold_count Let_def spatial_actives_def)
qed

lemma update_network_arrest_probability_eq:
  "update_network_arrest_probability m a nbrs d1 d2 =
     (if network_actives m nbrs d1 d2 = 0 then Inl ZeroDivisionError
      else Inr (a\<lparr>strong_ties_received :=
                    length (filter (\<lambda>c. condition c = Active \<and> jail_sentence c = 0) d1),
                  weak_ties_received :=
                    length (filter (\<lambda>c. condition c = Active \<and> jail_sentence c = 0) d2),
                  actives_in_vision := Some (network_actives m nbrs d1 d2),
                  arrest_probability :=
                    Some (arrest_formula (arrest_prob_constant m)
                            (length (filter (\<lambda>c. breed c = Cop) nbrs))
                            (network_actives m nbrs d1 d2))\<rparr>))"
  by (simp add: update_network_arrest_probability_def fold_count fold_count_pair Let_def
      network_actives_def)

lemma arrest_formula_zero_cops: "arrest_formula k 0 a = 0"
  by (simp add: arrest_formula_def)

lemma arrest_formula_range:
  assumes "0 \<le> k" "0 < a"
  shows "0 \<le> arrest_formula k c a \<and> arrest_formula k c a \<le> 1"
proof -
  have "0 \<le> real c / a" using assms by simp
  then have "0 \<le> \<lfloor>real c / a\<rfloor>" by simp
  then have "0 \<le> k * of_int \<lfloor>real c / a\<rfloor>" using assms by simp
  then show ?thesis by (simp add: arrest_formula_def)
qed

lemma arrest_formula_limit:
  assumes "0 < k" "0 < eps"
  shows "\<exists>N::nat. \<forall>c a. 0 < a \<and> real N \<le> real c / a \<longrightarrow> 1 - eps < arrest_formula k c a"
proof -
  obtain N :: nat where N: "ln (1 / eps) / k < real N"
    using reals_Archimedean2 by blast
  have "1 - eps < arrest_formula k c a" if a: "0 < a" and r: "real N \<le> real c / a" for c a
  proof -
    have "int N \<le> \<lfloor>real c / a\<rfloor>" using r by (simp add: le_floor_iff)
    then have "real N \<le> of_int \<lfloor>real c / a\<rfloor>" by linarith
    then have "k * real N \<le> k * of_int \<lfloor>real c / a\<rfloor>" using assms by simp
    moreover have "ln (1 / eps) < k * real N" using N assms by (simp add: field_simps)
    ultimately have "ln (1 / eps) < k * of_int \<lfloor>real c / a\<rfloor>" by linarith
    then have "exp (- (k * of_int \<lfloor>real c / a\<rfloor>)) < exp (- ln (1 / eps))" by simp
    also have "exp (- ln (1 / eps)) = eps" using assms by (simp add: exp_minus ln_div)
    finally show ?thesis by (simp add: arrest_formula_def)
  qed
  then show ?thesis by blast
qed

text \<open>
  C5, as the code has it. Whenever either estimate returns, the citizen's
  \<open>arrest_probability\<close> is \<open>1 - exp (- k * floor (cops / actives))\<close> for the actives-in-vision
  value \<open>actives\<close> it stored, and it is 0 when no cop is in vision. The estimate without the
  network always returns, with \<open>actives \<ge> 1\<close>; the estimate with the network returns with
  \<open>actives \<ge> 1\<close> when \<open>strong_weak_ratio\<close> is not negative. When \<open>arrest_prob_constant\<close> is not
  negative and \<open>actives\<close> is positive the probability lies in \<open>[0, 1]\<close>, and for a positive
  constant it comes as close to 1 as wished once the ratio of cops to actives is large.
\<close>

theorem arrest_probability_formula_and_range:
  "((update_estimated_arrest_probability m a nbrs = Inr a' \<or>
     update_network_arrest_probability m a nbrs d1 d2 = Inr a') \<longrightarrow>
    (\<exists>actives. actives_in_vision a' = Some actives \<and> actives \<noteq> 0 \<and>
       arrest_probability a' =
         Some (1 - exp (-1 * arrest_prob_constant m *
                 of_int \<lfloor>real (length (filter (\<lambda>c. breed c = Cop) nbrs)) / actives\<rfloor>)) \<and>
       (filter (\<lambda>c. breed c = Cop) nbrs = [] \<longrightarrow> arrest_probability a' = Some 0) \<and>
       (0 \<le> arrest_prob_constant m \<and> 0 < actives \<longrightarrow>
          (\<exists>p. arrest_probability a' = Some p \<and> 0 \<le> p \<and> p \<le> 1)))) \<and>
   (\<exists>a1 actives. update_estimated_arrest_probability m a nbrs = Inr a1 \<and>
       actives_in_vision a1 = Some actives \<and> 1 \<le> actives) \<and>
   (0 \<le> strong_weak_ratio m \<longrightarrow>
      (\<exists>a1 actives. update_network_arrest_probability m a nbrs d1 d2 = Inr a1 \<and>
          actives_in_vision a1 = Some actives \<and> 1 \<le> actives)) \<and>
   (0 < arrest_prob_constant m \<longrightarrow>
      (\<forall>eps>0. \<exists>N::nat. \<forall>c actives. 0 < actives \<and> real N \<le> real c / actives \<longrightarrow>
          1 - eps < arrest_formula (arrest_prob_constant m) c actives))"
proof (intro conjI impI)
  assume h: "update_estimated_arrest_probability m a nbrs = Inr a' \<or>
     update_network_arrest_probability m a nbrs d1 d2 = Inr a'"
  let ?cops = "length (filter (\<lambda>c. breed c = Cop) nbrs)"
  from h obtain actives where av: "actives_in_vision a' = Some actives" "actives \<noteq> 0"
    and p: "arrest_probability a' = Some (arrest_formula (arrest_prob_constant m) ?cops actives)"
  proof
    assume e: "update_estimated_arrest_probability m a nbrs = Inr a'"
    have "spatial_actives nbrs \<noteq> 0" using spatial_actives_ge_1[of nbrs] by linarith
    then show ?thesis
      using e that[of "spatial_actives nbrs"]
      by (auto simp: update_estimated_arrest_probability_eq)
  next
    assume e: "update_network_arrest_probability m a nbrs d1 d2 = Inr a'"
    then show ?thesis
      using that[of "network_actives m nbrs d1 d2"]
      by (auto simp: update_network_arrest_probability_eq split: if_splits)
  qed
  have z: "filter (\<lambda>c. breed c = Cop) nbrs = [] \<longrightarrow> arrest_probability a' = Some 0"
    using p by (auto simp: arrest_formula_zero_cops)
  have r: "0 \<le> arrest_prob_constant m \<and> 0 < actives \<longrightarrow>
          (\<exists>p. arrest_probability a' = Some p \<and> 0 \<le> p \<and> p \<le> 1)"
    using p arrest_formula_range[of "arrest_prob_constant m" actives ?cops] by auto
  show "\<exists>actives. actives_in_vision a' = Some actives \<and> actives \<noteq> 0 \<and>
       arrest_probability a' =
         Some (1 - exp (-1 * arrest_prob_constant m *
                 of_int \<lfloor>real (length (filter (\<lambda>c. breed c = Cop) nbrs)) / actives\<rfloor>)) \<and>
       (filter (\<lambda>c. breed c = Cop) nbrs = [] \<longrightarrow> arrest_probability a' = Some 0) \<and>
       (0 \<le> arrest_prob_constant m \<and> 0 < actives \<longrightarrow>
          (\<exists>p. arrest_probability a' = Some p \<and> 0 \<le> p \<and> p \<le> 1))"
    using av p z r unfolding arrest_formula_def by blast
next
  show "\<exists>a1 actives. update_estimated_arrest_probability m a nbrs = Inr a1 \<and>
       actives_in_vision a1 = Some actives \<and> 1 \<le> actives"
    using spatial_actives_ge_1[of nbrs] by (simp add: update_estimated_arrest_probability_eq)
next
  assume "0 \<le> strong_weak_ratio m"
  then have "1 \<le> network_actives m nbrs d1 d2" by (rule network_actives_ge_1)
  then show "\<exists>a1 actives. update_network_arrest_probability m a nbrs d1 d2 = Inr a1 \<and>
          actives_in_vision a1 = Some actives \<and> 1 \<le> actives"
    by (simp add: update_network_arrest_probability_eq)
next
  assume "0 < arrest_prob_constant m"
  then show "\<forall>eps>0. \<exists>N::nat. \<forall>c actives. 0 < actives \<and> real N \<le> real c / actives \<longrightarrow>
          1 - eps < arrest_formula (arrest_prob_constant m) c actives"
    using arrest_formula_limit by blast
qed

theorem arrest_probability_formula_and_range_witness:
  "update_estimated_arrest_probability (initial_model example_params) (example_citizen 0 (0, 0))
     [new_cop 1 (1, 0) 1] =
   Inr ((example_citizen 0 (0, 0))\<lparr>actives_in_vision := Some 1,
          arrest_probability := Some (1 - exp (- (23 / 10)))\<rparr>) \<and>
   (0::real) \<le> arrest_prob_constant (initial_model example_params) \<and>
   0 \<le> strong_weak_ratio (initial_model example_params) \<and>
   0 \<le> 1 - exp (- (23 / 10) :: real) \<and> 1 - exp (- (23 / 10) :: real) \<le> 1"
proof -
  let ?m = "initial_model example_params"
  let ?a = "example_citizen 0 (0, 0)"
  let ?a' = "?a\<lparr>actives_in_vision := Some 1, arrest_probability := Some (1 - exp (- (23 / 10)))\<rparr>"
  have k: "arrest_prob_constant ?m = 23 / 10" "strong_weak_ratio ?m = 5"
    by (simp_all add: initial_model_def example_params_def)
  have e: "update_estimated_arrest_probability ?m ?a [new_cop 1 (1, 0) 1] = Inr ?a'"
    by (simp add: update_estimated_arrest_probability_eq spatial_actives_def new_cop_def k
        arrest_formula_def)
  have "\<exists>p. arrest_probability ?a' = Some p \<and> 0 \<le> p \<and> p \<le> 1"
    using arrest_probability_formula_and_range[of ?m ?a "[new_cop 1 (1, 0) 1]" ?a' "[]" "[]"] e k
    by auto
  then show ?thesis using e k by simp
qed

text \<open>
  The claim as stated has no condition on the constant: with \<open>arrest_prob_constant = -1\<close> and
  one cop in vision the estimate is \<open>1 - exp 1\<close>, which is negative.
\<close>

theorem arrest_probability_negative_counterexample:
  "update_estimated_arrest_probability
     ((initial_model example_params)\<lparr>arrest_prob_constant := -1\<rparr>) (example_citizen 0 (0, 0))
     [new_cop 1 (1, 0) 1] =
   Inr ((example_citizen 0 (0, 0))\<lparr>actives_in_vision := Some 1,
          arrest_probability := Some (1 - exp 1)\<rparr>) \<and>
   1 - exp 1 < (0::real)"
  by (simp add: update_estimated_arrest_probability_eq spatial_actives_def new_cop_def
      arrest_formula_def)

section \<open>Aggregates\<close>

lemma get_average_jail_term_eq:
  "get_average_jail_term m =
     Inr (if jail_count m = 0 then 0
          else real_of_int (sum_list (map jail_sentence
                 (filter (\<lambda>a. breed a = Citizen \<and> jail_sentence a > 0) (agents m)))) /
               real (jail_count m))"
  by (simp add: get_average_jail_term_def py_div_def Let_def)

lemma sum_list_pos_nonempty: "sum_list (map f xs) \<noteq> (0::nat) \<Longrightarrow> length xs \<noteq> 0"
  by (cases xs) auto

lemma get_average_strong_ties_receival_eq:
  "get_average_strong_ties_receival m =
     Inr (let free = filter (\<lambda>a. breed a = Citizen \<and> jail_sentence a = 0) (agents m);
              total = sum_list (map strong_ties_received free)
          in if total = 0 then 0 else real total / real (length free))"
  using sum_list_pos_nonempty[of strong_ties_received
      "filter (\<lambda>a. breed a = Citizen \<and> jail_sentence a = 0) (agents m)"]
  by (simp add: get_average_strong_ties_receival_def py_div_def Let_def)

lemma get_average_weak_ties_receival_eq:
  "get_average_weak_ties_receival m =
     Inr (let free = filter (\<lambda>a. breed a = Citizen \<and> jail_sentence a = 0) (agents m);
              total = sum_list (map weak_ties_received free)
          in if total = 0 then 0 else real total / real (length free))"
  using sum_list_pos_nonempty[of weak_ties_received
      "filter (\<lambda>a. breed a = Citizen \<and> jail_sentence a = 0) (agents m)"]
  by (simp add: get_average_weak_ties_receival_def py_div_def Let_def)

lemma get_active_link_ratio_eq:
  "get_active_link_ratio m =
     (if number_of_edges m = 0 then Inl ZeroDivisionError
      else Inr (real (active_links m) / real (number_of_edges m)))"
  by (simp add: get_active_link_ratio_def py_div_def)

lemma collect_no_edges: "number_of_edges m = 0 \<Longrightarrow> collect m = Inl ZeroDivisionError"
  by (simp add: collect_def get_average_jail_term_eq get_average_strong_ties_receival_eq
      get_average_weak_ties_receival_eq get_active_link_ratio_eq)

lemma collect_edges:
  "number_of_edges m \<noteq> 0 \<Longrightarrow> \<exists>rows. collect m = Inr (m\<lparr>datacollector := rows\<rparr>)"
  unfolding collect_def get_average_jail_term_eq get_average_strong_ties_receival_eq
      get_average_weak_ties_receival_eq get_active_link_ratio_eq
  by (simp only: sum.case if_False) blast

section \<open>Construction\<close>

lemma density_check_iff:
  "density_check p = Inl ValueError \<longleftrightarrow> arg_cop_density p + arg_citizen_density p > 1"
  "density_check p = Inr () \<longleftrightarrow> arg_cop_density p + arg_citizen_density p \<le> 1"
  by (auto simp: density_check_def)

lemma place_agents_ids:
  "place_agents p cs (m, uid, ids) = (m', uid', ids') \<Longrightarrow>
   length ids = count_citizens m \<Longrightarrow> length ids' = count_citizens m'"
proof (induction cs arbitrary: m uid ids)
  case Nil
  then show ?case by simp
next
  case (Cons c cs)
  show ?case
    using Cons.prems
    by (auto simp: Let_def random_random_def count_citizens_def new_cop_def new_citizen_def
        split: if_splits intro!: Cons.IH[unfolded count_citizens_def])
qed

lemma init_Inr:
  assumes "init p = Inr m"
  shows "\<exists>m0 uid ids ns es.
           place_agents p (coord_iter (arg_width p) (arg_height p)) (initial_model p, 0, []) =
             (m0, uid, ids) \<and>
           arg_generator p (length ids) (arg_lattice_neighbor p) (arg_rewire_prob p) = Inr (ns, es) \<and>
           agents m = agents m0 \<and> G m = relabel_nodes ns es (zip ns ids) \<and>
           length ids = count_citizens m0 \<and>
           arg_cop_density p + arg_citizen_density p \<le> 1"
proof -
  obtain m0 uid ids where pl:
    "place_agents p (coord_iter (arg_width p) (arg_height p)) (initial_model p, 0, []) = (m0, uid, ids)"
    by (metis prod_cases3)
  have len: "length ids = count_citizens m0"
    using place_agents_ids[OF pl] by (simp add: count_citizens_def initial_model_def)
  from assms pl obtain ns es m2 where
    g: "arg_generator p (length ids) (arg_lattice_neighbor p) (arg_rewire_prob p) = Inr (ns, es)"
    and c: "collect (m0\<lparr>G := relabel_nodes ns es (zip ns ids),
                        number_of_edges := length (relabelled_edges (zip ns ids) es),
                        running := True\<rparr>) = Inr m2"
    and m: "m = m2\<lparr>citizen_count := count_type_citizens m2 Quiescent +
                      count_type_citizens m2 Active + count_jailed m2,
                    cop_count := count_cops m2\<rparr>"
    and d: "arg_cop_density p + arg_citizen_density p \<le> 1"
    by (auto simp: init_def density_check_def Let_def split: sum.splits if_splits prod.splits)
  have "agents m2 = agents m0" "G m2 = relabel_nodes ns es (zip ns ids)"
    using arg_cong[OF collect_frame[OF c], of agents] arg_cong[OF collect_frame[OF c], of G]
    by simp_all
  then show ?thesis using pl g len d m by simp
qed

lemma coord_example: "coord_iter (arg_width example_params) (arg_height example_params) = [(0,0),(1,0),(2,0)]"
  by (simp add: coord_iter_def upt_rec example_params_def)

lemma placed_example:
  "snd (place_agents example_params [(0,0),(1,0),(2,0)] (initial_model example_params, 0, [])) = (Suc (Suc (Suc 0)), [0, Suc 0, Suc (Suc 0)])"
  by (simp add: example_params_def initial_model_def random_random_def)

lemma placed_example_lattice:
  "snd (place_agents (example_params\<lparr>arg_lattice_neighbor := k\<rparr>) [(0,0),(1,0),(2,0)] (initial_model (example_params\<lparr>arg_lattice_neighbor := k\<rparr>), 0, [])) = (Suc (Suc (Suc 0)), [0, Suc 0, Suc (Suc 0)])"
  by (simp add: example_params_def initial_model_def random_random_def)

lemma ring3: "watts_strogatz_graph id 3 2 0 = Inr ([0, 1, 2], [(0, 1), (1, 2), (2, 0)])"
  by (simp add: watts_strogatz_graph_def ring_lattice_def upt_rec)

lemma ring3_0: "watts_strogatz_graph id 3 0 0 = Inr ([0, 1, 2], [])"
  by (simp add: watts_strogatz_graph_def ring_lattice_def upt_rec)

lemma complete3: "watts_strogatz_graph id 3 3 0 = Inr ([0, 1, 2], [(0, 1), (0, 2), (1, 2)])"
  by (simp add: watts_strogatz_graph_def complete_graph_def upt_rec)

lemma watts_strogatz_graph_rejects:
  "int n < k \<Longrightarrow> watts_strogatz_graph rewire n k q = Inl NetworkXError"
  by (simp add: watts_strogatz_graph_def)

lemma watts_strogatz_graph_accepts:
  "watts_strogatz_graph rewire n k q = Inr g \<Longrightarrow> k \<le> int n"
  by (simp add: watts_strogatz_graph_def split: if_splits)


lemma init_generator_rejects:
  assumes "arg_cop_density p + arg_citizen_density p \<le> 1"
    and "snd (place_agents p (coord_iter (arg_width p) (arg_height p)) (initial_model p, 0, [])) = (uid, ids)"
    and "arg_generator p (length ids) (arg_lattice_neighbor p) (arg_rewire_prob p) = Inl e"
  shows "init p = Inl e"
  using assms by (auto simp: init_def density_check_def Let_def split: prod.splits)

lemma init_no_edges:
  assumes "arg_cop_density p + arg_citizen_density p \<le> 1"
    and "snd (place_agents p (coord_iter (arg_width p) (arg_height p)) (initial_model p, 0, [])) = (uid, ids)"
    and "arg_generator p (length ids) (arg_lattice_neighbor p) (arg_rewire_prob p) = Inr (ns, es)"
    and "relabelled_edges (zip ns ids) es = []"
  shows "init p = Inl ZeroDivisionError"
  using assms by (auto simp: init_def density_check_def Let_def collect_no_edges split: prod.splits)

lemma init_succeeds:
  assumes d: "arg_cop_density p + arg_citizen_density p \<le> 1"
    and pl: "snd (place_agents p (coord_iter (arg_width p) (arg_height p)) (initial_model p, 0, [])) = (uid, ids)"
    and g: "arg_generator p (length ids) (arg_lattice_neighbor p) (arg_rewire_prob p) = Inr (ns, es)"
    and e: "relabelled_edges (zip ns ids) es \<noteq> []"
  shows "\<exists>m. init p = Inr m"
proof -
  obtain m0 where m0: "place_agents p (coord_iter (arg_width p) (arg_height p)) (initial_model p, 0, []) = (m0, uid, ids)"
    using pl by (metis prod.collapse)
  let ?m1 = "m0\<lparr>G := relabel_nodes ns es (zip ns ids),
                 number_of_edges := length (relabelled_edges (zip ns ids) es), running := True\<rparr>"
  have "number_of_edges ?m1 \<noteq> 0" using e by simp
  from collect_edges[OF this] obtain rows where "collect ?m1 = Inr (?m1\<lparr>datacollector := rows\<rparr>)"
    by blast
  then show ?thesis using d m0 g by (simp add: init_def density_check_def Let_def)
qed

lemma init_example: "\<exists>m. init example_params = Inr m"
proof (rule init_succeeds)
  show "arg_cop_density example_params + arg_citizen_density example_params \<le> 1"
    by (simp add: example_params_def)
  show "snd (place_agents example_params
              (coord_iter (arg_width example_params) (arg_height example_params))
              (initial_model example_params, 0, [])) = (Suc (Suc (Suc 0)), [0, Suc 0, Suc (Suc 0)])"
    by (simp only: coord_example placed_example)
  show "arg_generator example_params (length [0, Suc 0, Suc (Suc 0)])
          (arg_lattice_neighbor example_params) (arg_rewire_prob example_params) =
        Inr ([0, 1, 2], [(0, 1), (1, 2), (2, 0)])"
    using ring3 by (simp add: example_params_def numeral_3_eq_3)
  show "relabelled_edges (zip [0, 1, 2] [0, Suc 0, Suc (Suc 0)]) [(0, 1), (1, 2), (2, 0)] \<noteq> []"
    by (simp add: relabelled_edges_def)
qed

section \<open>Claims about construction and the aggregates\<close>

text \<open>
  C2. The check of lines 137-138 raises exactly when the two densities add up to more than 1.
  At the boundary, with the sum exactly 1, it does not raise: in the example world
  construction goes on and returns a model.
\<close>

theorem density_sum_one_is_accepted:
  "arg_cop_density example_params + arg_citizen_density example_params = 1 \<and>
   density_check example_params = Inr () \<and>
   (\<exists>m. init example_params = Inr m)"
  using init_example by (simp add: density_check_def example_params_def)

text \<open>
  C8. \<^verbatim>\<open>get_active_link_ratio\<close> divides by \<open>number_of_edges\<close> unguarded. With a lattice degree
  of 0 the generated network has no edge and construction ends in \<^verbatim>\<open>ZeroDivisionError\<close>,
  raised by the first collection of the aggregates. The two averages over citizens return 0
  on an empty population.
\<close>

theorem link_ratio_divides_by_zero:
  "init (example_params\<lparr>arg_lattice_neighbor := 0\<rparr>) = Inl ZeroDivisionError \<and>
   get_active_link_ratio (initial_model example_params) = Inl ZeroDivisionError \<and>
   get_average_jail_term (initial_model example_params) = Inr 0 \<and>
   get_average_strong_ties_receival (initial_model example_params) = Inr 0 \<and>
   get_average_weak_ties_receival (initial_model example_params) = Inr 0"
proof -
  let ?p = "example_params\<lparr>arg_lattice_neighbor := 0\<rparr>"
  have c: "coord_iter (arg_width ?p) (arg_height ?p) = [(0, 0), (1, 0), (2, 0)]"
    using coord_example by simp
  have "init ?p = Inl ZeroDivisionError"
  proof (rule init_no_edges)
    show "arg_cop_density ?p + arg_citizen_density ?p \<le> 1"
      by (simp add: example_params_def)
    show "snd (place_agents ?p (coord_iter (arg_width ?p) (arg_height ?p))
                 (initial_model ?p, 0, [])) = (Suc (Suc (Suc 0)), [0, Suc 0, Suc (Suc 0)])"
      by (simp only: c placed_example_lattice)
    show "arg_generator ?p (length [0, Suc 0, Suc (Suc 0)]) (arg_lattice_neighbor ?p)
            (arg_rewire_prob ?p) = Inr ([0, 1, 2], [])"
      using ring3_0 by (simp add: example_params_def numeral_3_eq_3)
    show "relabelled_edges (zip [0, 1, 2] [0, Suc 0, Suc (Suc 0)]) [] = []"
      by (simp add: relabelled_edges_def)
  qed
  moreover have "number_of_edges (initial_model example_params) = 0"
    "jail_count (initial_model example_params) = 0" "agents (initial_model example_params) = []"
    by (simp_all add: initial_model_def)
  ultimately show ?thesis
    by (simp add: get_active_link_ratio_eq get_average_jail_term_eq
        get_average_strong_ties_receival_eq get_average_weak_ties_receival_eq)
qed

text \<open>
  C7. The value reported for a tick is computed by \<^verbatim>\<open>get_average_jail_term\<close> while
  \<open>jail_count\<close> still holds the count of the previous tick. In the example both citizens
  start the tick in jail (terms 1 and 4, \<open>jail_count = 2\<close>); after their activations one
  citizen is in jail with term 3. The row collected for the tick reports the mean 3/2; the
  attribute \<open>average_jail_term\<close>, assigned after the count is refreshed, is 3.
\<close>

lemma two_jailed_schedule:
  "schedule_step [0, 1] (begin_tick two_jailed_model) =
     Inr ((begin_tick two_jailed_model)
            \<lparr>agents := [(example_citizen 0 (0, 0))\<lparr>jail_sentence := 0\<rparr>,
                        (example_citizen 1 (1, 0))\<lparr>jail_sentence := 3\<rparr>]\<rparr>)"
  by (simp add: two_jailed_model_def begin_tick_def agent_step_def agent_by_id_def
      citizen_step_def set_agent_def example_citizen_def new_citizen_def)

theorem reported_mean_jail_term_is_stale:
  "\<exists>m'. step [0, 1] two_jailed_model = Inr m' \<and>
        map jail_sentence (agents m') = [0, 3] \<and>
        r_jailed (last (datacollector m')) = 1 \<and>
        r_average_jailing_term (last (datacollector m')) = 3 / 2 \<and>
        average_jail_term m' = 3"
proof -
  define B where "B = begin_tick two_jailed_model"
  have fields: "link_to_censor B = []" "number_of_edges B = 1" "jail_count B = 2"
    "datacollector B = []"
    by (simp_all add: B_def begin_tick_def two_jailed_model_def initial_model_def)
  have ag: "breed (example_citizen i p) = Citizen" "jail_sentence (example_citizen i p) = 0" for i p
    by (simp_all add: example_citizen_def new_citizen_def)
  have s: "step [0, 1] two_jailed_model =
      end_tick (B\<lparr>agents := [(example_citizen 0 (0, 0))\<lparr>jail_sentence := 0\<rparr>,
                        (example_citizen 1 (1, 0))\<lparr>jail_sentence := 3\<rparr>]\<rparr>)"
    by (simp only: step_def two_jailed_schedule B_def sum.case)
  show ?thesis
    unfolding s
    by (simp add: end_tick_def Let_def get_active_link_ratio_eq fields ag
      collect_def get_average_jail_term_eq get_average_strong_ties_receival_eq
      get_average_weak_ties_receival_eq update_counts_def count_jailed_def)
qed

lemma init_lattice_example:
  assumes g: "watts_strogatz_graph id 3 k 0 = Inr ([0, 1, 2], es)"
    and e: "relabelled_edges (zip [0, 1, 2] [0, Suc 0, Suc (Suc 0)]) es \<noteq> []"
  shows "\<exists>m. init (example_params\<lparr>arg_lattice_neighbor := k\<rparr>) = Inr m \<and> count_citizens m = 3"
proof -
  let ?p = "example_params\<lparr>arg_lattice_neighbor := k\<rparr>"
  have c: "coord_iter (arg_width ?p) (arg_height ?p) = [(0, 0), (1, 0), (2, 0)]"
    using coord_example by simp
  have pl: "snd (place_agents ?p (coord_iter (arg_width ?p) (arg_height ?p))
                  (initial_model ?p, 0, [])) = (Suc (Suc (Suc 0)), [0, Suc 0, Suc (Suc 0)])"
    by (simp only: c placed_example_lattice)
  have "\<exists>m. init ?p = Inr m"
  proof (rule init_succeeds[OF _ pl _ e])
    show "arg_cop_density ?p + arg_citizen_density ?p \<le> 1"
      by (simp add: example_params_def)
    show "arg_generator ?p (length [0, Suc 0, Suc (Suc 0)]) (arg_lattice_neighbor ?p)
            (arg_rewire_prob ?p) = Inr ([0, 1, 2], es)"
      using g by (simp add: example_params_def numeral_3_eq_3)
  qed
  then obtain m where m: "init ?p = Inr m" by blast
  from init_Inr[OF m] obtain m0 uid ids where
    p0: "place_agents ?p (coord_iter (arg_width ?p) (arg_height ?p)) (initial_model ?p, 0, []) =
           (m0, uid, ids)"
    and a: "agents m = agents m0" and l: "length ids = count_citizens m0"
    by blast
  have "ids = [0, Suc 0, Suc (Suc 0)]" using pl p0 by simp
  then have "count_citizens m = 3" using a l by (simp add: count_citizens_def)
  then show ?thesis using m by blast
qed

text \<open>
  C10, as the code has it. Construction calls the generator whatever the activation mode,
  with the number of citizens placed as the number of nodes, and a model is returned only if
  the generator returned a graph: that graph, relabelled, is the model's network. The
  generator rejects a lattice degree above the number of nodes, so a model is returned only
  when the number of citizens placed is at least the lattice degree, and whenever fewer
  citizens are placed than the lattice degree construction ends in \<^verbatim>\<open>NetworkXError\<close>, with
  densities that pass the density check.
\<close>

theorem construction_needs_generated_network:
  "(\<forall>m. init p = Inr m \<longrightarrow>
      (\<exists>ns es ids. arg_generator p (count_citizens m) (arg_lattice_neighbor p)
                       (arg_rewire_prob p) = Inr (ns, es) \<and>
                    length ids = count_citizens m \<and>
                    G m = relabel_nodes ns es (zip ns ids))) \<and>
   (\<forall>rewire. arg_generator p = watts_strogatz_graph rewire \<longrightarrow>
      (\<forall>m. init p = Inr m \<longrightarrow> arg_lattice_neighbor p \<le> int (count_citizens m)) \<and>
      (\<forall>uid ids.
         arg_cop_density p + arg_citizen_density p \<le> 1 \<and>
         snd (place_agents p (coord_iter (arg_width p) (arg_height p))
                (initial_model p, 0, [])) = (uid, ids) \<and>
         int (length ids) < arg_lattice_neighbor p \<longrightarrow>
         init p = Inl NetworkXError))"
proof -
  have built: "\<exists>ns es ids. arg_generator p (count_citizens m) (arg_lattice_neighbor p)
                       (arg_rewire_prob p) = Inr (ns, es) \<and>
                    length ids = count_citizens m \<and>
                    G m = relabel_nodes ns es (zip ns ids)"
    if i: "init p = Inr m" for m
  proof -
    from init_Inr[OF i] obtain m0 uid ids ns es where
      g: "arg_generator p (length ids) (arg_lattice_neighbor p) (arg_rewire_prob p) = Inr (ns, es)"
      and a: "agents m = agents m0" and gr: "G m = relabel_nodes ns es (zip ns ids)"
      and l: "length ids = count_citizens m0"
      by blast
    have c: "count_citizens m = length ids" using a l by (simp add: count_citizens_def)
    show ?thesis using g gr c by auto
  qed
  have enough: "arg_lattice_neighbor p \<le> int (count_citizens m)"
    if i: "init p = Inr m" and w: "arg_generator p = watts_strogatz_graph rewire" for m rewire
  proof -
    from built[OF i] obtain ns es where
      "watts_strogatz_graph rewire (count_citizens m) (arg_lattice_neighbor p) (arg_rewire_prob p) =
         Inr (ns, es)"
      using w by auto
    then show ?thesis by (rule watts_strogatz_graph_accepts)
  qed
  have rejected: "init p = Inl NetworkXError"
    if w: "arg_generator p = watts_strogatz_graph rewire"
      and d: "arg_cop_density p + arg_citizen_density p \<le> 1"
      and pl: "snd (place_agents p (coord_iter (arg_width p) (arg_height p))
                (initial_model p, 0, [])) = (uid, ids)"
      and k: "int (length ids) < arg_lattice_neighbor p" for rewire uid ids
  proof (rule init_generator_rejects[OF d pl])
    show "arg_generator p (length ids) (arg_lattice_neighbor p) (arg_rewire_prob p) =
            Inl NetworkXError"
      using watts_strogatz_graph_rejects[OF k] w by simp
  qed
  show ?thesis
  proof (intro conjI allI impI)
    fix m assume "init p = Inr m"
    then show "\<exists>ns es ids. arg_generator p (count_citizens m) (arg_lattice_neighbor p)
                       (arg_rewire_prob p) = Inr (ns, es) \<and>
                    length ids = count_citizens m \<and>
                    G m = relabel_nodes ns es (zip ns ids)"
      by (rule built)
  next
    fix rewire m assume "arg_generator p = watts_strogatz_graph rewire" "init p = Inr m"
    then show "arg_lattice_neighbor p \<le> int (count_citizens m)"
      using enough by simp
  next
    fix rewire uid ids
    assume w: "arg_generator p = watts_strogatz_graph rewire"
      and h: "arg_cop_density p + arg_citizen_density p \<le> 1 \<and>
         snd (place_agents p (coord_iter (arg_width p) (arg_height p))
                (initial_model p, 0, [])) = (uid, ids) \<and>
         int (length ids) < arg_lattice_neighbor p"
    from h have d: "arg_cop_density p + arg_citizen_density p \<le> 1"
      and pl: "snd (place_agents p (coord_iter (arg_width p) (arg_height p))
                (initial_model p, 0, [])) = (uid, ids)"
      and k: "int (length ids) < arg_lattice_neighbor p"
      by simp_all
    show "init p = Inl NetworkXError"
      by (rule rejected[OF w d pl k])
  qed
qed

theorem construction_needs_generated_network_witness:
  "arg_activation_type example_params = ''Without SWN'' \<and>
   arg_generator example_params = watts_strogatz_graph id \<and>
   arg_lattice_neighbor example_params = 2 \<and>
   (\<exists>m. init example_params = Inr m \<and> count_citizens m = 3 \<and>
        arg_lattice_neighbor example_params \<le> int (count_citizens m)) \<and>
   init (example_params\<lparr>arg_lattice_neighbor := 4\<rparr>) = Inl NetworkXError"
proof -
  have w: "arg_generator example_params = watts_strogatz_graph id"
    by (simp add: example_params_def)
  have "\<exists>m. init (example_params\<lparr>arg_lattice_neighbor := 2\<rparr>) = Inr m \<and> count_citizens m = 3"
    by (rule init_lattice_example[OF ring3]) (simp add: relabelled_edges_def)
  moreover have "example_params\<lparr>arg_lattice_neighbor := 2\<rparr> = example_params"
    by (simp add: example_params_def)
  ultimately obtain m where m: "init example_params = Inr m" "count_citizens m = 3" by auto
  have 1: "arg_lattice_neighbor example_params \<le> int (count_citizens m)"
    using construction_needs_generated_network[of example_params] m(1) w by blast
  let ?p = "example_params\<lparr>arg_lattice_neighbor := 4\<rparr>"
  have c: "coord_iter (arg_width ?p) (arg_height ?p) = [(0, 0), (1, 0), (2, 0)]"
    using coord_example by simp
  have d: "arg_cop_density ?p + arg_citizen_density ?p \<le> 1"
    by (simp add: example_params_def)
  have pl: "snd (place_agents ?p (coord_iter (arg_width ?p) (arg_height ?p))
                  (initial_model ?p, 0, [])) = (Suc (Suc (Suc 0)), [0, Suc 0, Suc (Suc 0)])"
    by (simp only: c placed_example_lattice)
  have k: "int (length [0, Suc 0, Suc (Suc 0)]) < arg_lattice_neighbor ?p" by simp
  have w4: "arg_generator ?p = watts_strogatz_graph id" by (simp add: example_params_def)
  have 2: "init ?p = Inl NetworkXError"
    using construction_needs_generated_network[of ?p] w4 d pl k by blast
  show ?thesis using w m 1 2 by (auto simp: example_params_def)
qed

text \<open>
  The claim as stated asks for strictly more citizens than the lattice degree. With three
  citizens placed and lattice degree 3 the generator returns the complete graph on three
  nodes and construction returns a model.
\<close>

theorem construction_at_equal_degree_counterexample:
  "\<exists>m. init (example_params\<lparr>arg_lattice_neighbor := 3\<rparr>) = Inr m \<and>
       count_citizens m = 3 \<and>
       arg_lattice_neighbor (example_params\<lparr>arg_lattice_neighbor := 3\<rparr>) = 3 \<and>
       \<not> arg_lattice_neighbor (example_params\<lparr>arg_lattice_neighbor := 3\<rparr>) < int (count_citizens m)"
proof -
  have "\<exists>m. init (example_params\<lparr>arg_lattice_neighbor := 3\<rparr>) = Inr m \<and> count_citizens m = 3"
    by (rule init_lattice_example[OF complete3]) (simp add: relabelled_edges_def canonical_def relabel_def)
  then show ?thesis by auto
qed

section \<open>The two-citizen example worlds\<close>

lemma two_node_neighbors:
  assumes "nodes g = [0, 1]" "edge_data g (0, 0) = None" "edge_data g (1, 1) = None"
    "edge_data g (0, 1) = Some c"
  shows "neighbors g 0 = [1]" "neighbors g 1 = [0]"
  using assms by (simp_all add: neighbors_def canonical_def)

lemma two_node_within:
  assumes "neighbors g 0 = [1]" "neighbors g 1 = [0]" "i = 0 \<or> i = 1"
  shows "set (nodes_within g i 2) = {0, 1}"
  using assms by (auto simp: numeral_2_eq_2)

lemma ego_example:
  assumes g: "nodes (G m) = [0, 1]" "edge_data (G m) (0, 0) = None" "edge_data (G m) (1, 1) = None"
    "edge_data (G m) (0, 1) = Some 0"
    and a: "unique_id a = 0 \<or> unique_id a = 1"
  shows "\<exists>ego. prepare_ego m a = Inr (ego, get_agents_by_ids m [1 - unique_id a], get_agents_by_ids m [unique_id a])
      \<and> neighbors ego (unique_id a) = [1 - unique_id a]"
proof -
  define i where "i = unique_id a"
  have i: "i = 0 \<or> i = 1" using a by (simp add: i_def)
  have w: "set (nodes_within (G m) i 2) = {0, 1}"
    by (rule two_node_within[OF two_node_neighbors[OF g] i])
  define pr where "pr = remove_censored (subgraph (G m) (nodes_within (G m) i 2))"
  have pn: "nodes pr = [0, 1]" using g w by (simp add: pr_def remove_censored_def subgraph_def)
  have pe: "edge_data pr (0, 0) = None" "edge_data pr (1, 1) = None" "edge_data pr (0, 1) = Some 0"
    using g w by (simp_all add: pr_def remove_censored_def subgraph_def)
  have w': "set (nodes_within pr i 2) = {0, 1}"
    by (rule two_node_within[OF two_node_neighbors[OF pn pe] i])
  define ego where "ego = subgraph pr (nodes_within pr i 2)"
  have en: "nodes ego = [0, 1]" using pn w' by (simp add: ego_def subgraph_def)
  have ee: "edge_data ego (0, 0) = None" "edge_data ego (1, 1) = None" "edge_data ego (0, 1) = Some 0"
    using pe w' by (simp_all add: ego_def subgraph_def)
  have ne: "neighbors ego i = [1 - i]"
    using i two_node_neighbors[OF en ee] by auto
  have "i \<in> set (nodes (G m))" "i \<in> set (nodes pr)" using i g pn by auto
  then have "prepare_ego m a = Inr (ego, get_agents_by_ids m [1 - i], get_agents_by_ids m [i])"
    using ne en i
    by (auto simp: prepare_ego_def ego_graph_def Let_def i_def[symmetric] pr_def[symmetric] ego_def[symmetric])
  then show ?thesis using ne unfolding i_def by blast
qed

lemma citizen_step_network_eq:
  assumes "jail_sentence a = 0" "activation_type m = ''With SWN''"
    and "prepare_ego m a = Inr (ego, d1, d2)"
    and "update_neighbors m a = (nbrs, empty_neighbors)"
    and "network_actives m nbrs d1 d2 \<noteq> 0"
  shows "citizen_step a m =
     (let p = arrest_formula (arrest_prob_constant m) (length (filter (\<lambda>c. breed c = Cop) nbrs))
                (network_actives m nbrs d1 d2);
          a1 = a\<lparr>strong_ties_received :=
                    length (filter (\<lambda>c. condition c = Active \<and> jail_sentence c = 0) d1),
                  weak_ties_received :=
                    length (filter (\<lambda>c. condition c = Active \<and> jail_sentence c = 0) d2),
                  actives_in_vision := Some (network_actives m nbrs d1 d2),
                  arrest_probability := Some p\<rparr>;
          m1 = (if condition a = Active
                then m\<lparr>link_to_censor :=
                         fold (\<lambda>v l. List.insert (canonical (unique_id a) v) l)
                              (neighbors ego (unique_id a)) (link_to_censor m)\<rparr>
                else m);
          a2 = (if condition a = Quiescent \<and> grievance a - risk_aversion a * p > threshold a
                then a1\<lparr>condition := Active\<rparr> else a1)
      in Inr (move_step a2 empty_neighbors m1))"
  using assms by (simp add: citizen_step_def update_network_arrest_probability_eq Let_def)

lemma network_base_fields:
  "activation_type network_base = ''With SWN''" "number_of_edges network_base = 1"
  "G network_base = \<lparr>nodes = [0, 1], edge_data = [(0, 1) \<mapsto> 0]\<rparr>"
  "movement network_base = False" "link_to_censor network_base = []"
  "get_neighborhood network_base = torus_moore 3 1"
  "strong_weak_ratio network_base = 5" "arrest_prob_constant network_base = 23 / 10"
  "p_link_censor network_base = 1" "t_censor network_base = 5"
  "rand network_base = (\<lambda>i. 1 / 2)" "datacollector network_base = []"
  "jail_count network_base = 0"
  by (simp_all add: network_base_def initial_model_def example_params_def)

lemma nbhd:
  "torus_moore 3 (Suc 0) (0, 0) (Suc 0) = [(2, 0), (1, 0)]"
  "torus_moore 3 (Suc 0) (1, 0) (Suc 0) = [(0, 0), (2, 0)]"
  by (simp_all add: torus_moore_def upto_rec1)

lemma example_citizen_fields:
  "unique_id (example_citizen i p) = i" "breed (example_citizen i p) = Citizen"
  "pos (example_citizen i p) = p" "vision (example_citizen i p) = 1"
  "condition (example_citizen i p) = Quiescent" "jail_sentence (example_citizen i p) = 0"
  "grievance (example_citizen i p) = 1 / 10" "risk_aversion (example_citizen i p) = 1 / 2"
  "threshold (example_citizen i p) = 1 / 10"
  by (simp_all add: example_citizen_def new_citizen_def)


lemma new_cop_fields:
  "unique_id (new_cop i p v) = i" "breed (new_cop i p v) = Cop" "pos (new_cop i p v) = p"
  "vision (new_cop i p v) = v" "jail_sentence (new_cop i p v) = 0"
  "condition (new_cop i p v) = Quiescent"
  by (simp_all add: new_cop_def)

lemma two_citizens_step:
  assumes B: "agents B = [x0, x1]" "activation_type B = ''With SWN''" "movement B = False"
      "get_neighborhood B = torus_moore 3 1" "strong_weak_ratio B = 5"
    and g: "nodes (G B) = [0, 1]" "edge_data (G B) (0, 0) = None" "edge_data (G B) (1, 1) = None"
      "edge_data (G B) (0, 1) = Some 0"
    and x0: "unique_id x0 = 0" "breed x0 = Citizen" "pos x0 = (0, 0)" "vision x0 = 1"
      "jail_sentence x0 = 0"
    and x1: "unique_id x1 = 1" "breed x1 = Citizen" "pos x1 = (1, 0)" "vision x1 = 1"
      "jail_sentence x1 = 0"
  shows "agent_step 0 B =
           Inr (B\<lparr>link_to_censor :=
                    (if condition x0 = Active then List.insert (0, 1) (link_to_censor B)
                     else link_to_censor B),
                  agents :=
                    [x0\<lparr>strong_ties_received := (if condition x1 = Active then 1 else 0),
                        weak_ties_received := (if condition x0 = Active then 1 else 0),
                        actives_in_vision :=
                          Some (1 + (if condition x1 = Active then 6 else 0) +
                                (if condition x0 = Active then 1 else 0)),
                        arrest_probability := Some 0,
                        condition := (if grievance x0 > threshold x0 then Active
                                      else condition x0)\<rparr>, x1]\<rparr>)"
    and "agent_step 1 B =
           Inr (B\<lparr>link_to_censor :=
                    (if condition x1 = Active then List.insert (0, 1) (link_to_censor B)
                     else link_to_censor B),
                  agents :=
                    [x0, x1\<lparr>strong_ties_received := (if condition x0 = Active then 1 else 0),
                        weak_ties_received := (if condition x1 = Active then 1 else 0),
                        actives_in_vision :=
                          Some (1 + (if condition x0 = Active then 6 else 0) +
                                (if condition x1 = Active then 1 else 0)),
                        arrest_probability := Some 0,
                        condition := (if grievance x1 > threshold x1 then Active
                                      else condition x1)\<rparr>]\<rparr>)"
proof -
  have c: "\<And>x. condition x \<noteq> Active \<longleftrightarrow> condition x = Quiescent"
    by (metis condition.exhaust condition.distinct(1))
  have d: "get_agents_by_ids B [Suc 0] = [x1]" "get_agents_by_ids B [0] = [x0]"
    by (simp_all add: get_agents_by_ids_def agent_dict_def B x0 x1 List.map_filter_simps)
  have by_id: "agent_by_id B 0 = Some x0" "agent_by_id B (Suc 0) = Some x1"
    by (simp_all add: agent_by_id_def B x0 x1)
  from ego_example[OF g, of x0] obtain ego0 where
    pe0: "prepare_ego B x0 = Inr (ego0, [x1], [x0])" and ne0: "neighbors ego0 0 = [Suc 0]"
    by (auto simp: x0 d)
  from ego_example[OF g, of x1] obtain ego1 where
    pe1: "prepare_ego B x1 = Inr (ego1, [x0], [x1])" and ne1: "neighbors ego1 (Suc 0) = [0]"
    by (auto simp: x1 d)
  have un: "update_neighbors B x0 = ([x1], [(2, 0)])" "update_neighbors B x1 = ([x0], [(2, 0)])"
    by (simp_all add: update_neighbors_def B x0 x1 nbhd get_cell_list_contents_def
        is_cell_empty_def Let_def)
  have na0: "network_actives B [x1] [x1] [x0] =
               1 + (if condition x1 = Active then 6 else 0) + (if condition x0 = Active then 1 else 0)"
    by (simp add: network_actives_def B x0 x1)
  have na1: "network_actives B [x0] [x0] [x1] =
               1 + (if condition x0 = Active then 6 else 0) + (if condition x1 = Active then 1 else 0)"
    by (simp add: network_actives_def B x0 x1)
  have nz: "network_actives B [x1] [x1] [x0] \<noteq> 0" "network_actives B [x0] [x0] [x1] \<noteq> 0"
    by (simp_all add: na0 na1)
  show "agent_step 0 B =
           Inr (B\<lparr>link_to_censor :=
                    (if condition x0 = Active then List.insert (0, 1) (link_to_censor B)
                     else link_to_censor B),
                  agents :=
                    [x0\<lparr>strong_ties_received := (if condition x1 = Active then 1 else 0),
                        weak_ties_received := (if condition x0 = Active then 1 else 0),
                        actives_in_vision :=
                          Some (1 + (if condition x1 = Active then 6 else 0) +
                                (if condition x0 = Active then 1 else 0)),
                        arrest_probability := Some 0,
                        condition := (if grievance x0 > threshold x0 then Active
                                      else condition x0)\<rparr>, x1]\<rparr>)"
    using citizen_step_network_eq[OF x0(5) B(2) pe0 un(1) nz(1)]
    by (cases "condition x0")
       (simp_all add: agent_step_def by_id x0 x1 Let_def ne0 B move_step_def set_agent_def
        arrest_formula_def canonical_def na0)
  show "agent_step 1 B =
           Inr (B\<lparr>link_to_censor :=
                    (if condition x1 = Active then List.insert (0, 1) (link_to_censor B)
                     else link_to_censor B),
                  agents :=
                    [x0, x1\<lparr>strong_ties_received := (if condition x0 = Active then 1 else 0),
                        weak_ties_received := (if condition x1 = Active then 1 else 0),
                        actives_in_vision :=
                          Some (1 + (if condition x0 = Active then 6 else 0) +
                                (if condition x1 = Active then 1 else 0)),
                        arrest_probability := Some 0,
                        condition := (if grievance x1 > threshold x1 then Active
                                      else condition x1)\<rparr>]\<rparr>)"
    using citizen_step_network_eq[OF x1(5) B(2) pe1 un(2) nz(2)]
    by (cases "condition x1")
       (simp_all add: agent_step_def by_id x0 x1 Let_def ne1 B move_step_def set_agent_def
        arrest_formula_def canonical_def na1)
qed

section \<open>Agents under one activation\<close>

lemma find_unique_id: "find (\<lambda>a. unique_id a = i) xs = Some a \<Longrightarrow> unique_id a = i \<and> a \<in> set xs"
  by (induction xs) (auto split: if_splits)

lemma agent_by_id_Some: "agent_by_id m i = Some a \<Longrightarrow> unique_id a = i \<and> a \<in> set (agents m)"
  unfolding agent_by_id_def by (rule find_unique_id)

lemma find_map_other:
  "i \<noteq> j \<Longrightarrow> unique_id a' = j \<Longrightarrow>
   find (\<lambda>a. unique_id a = i) (map (\<lambda>b. if unique_id b = j then a' else b) xs) =
   find (\<lambda>a. unique_id a = i) xs"
  by (induction xs) auto

lemma find_map_same:
  "unique_id a' = j \<Longrightarrow> find (\<lambda>a. unique_id a = j) xs = Some a \<Longrightarrow>
   find (\<lambda>a. unique_id a = j) (map (\<lambda>b. if unique_id b = j then a' else b) xs) = Some a'"
  by (induction xs) (auto split: if_splits)

lemma map_ids_update:
  "unique_id a' = j \<Longrightarrow> map unique_id (map (\<lambda>b. if unique_id b = j then a' else b) xs) = map unique_id xs"
  by (induction xs) auto

lemma distinct_ids_unique:
  "distinct (map unique_id xs) \<Longrightarrow> a \<in> set xs \<Longrightarrow> b \<in> set xs \<Longrightarrow> unique_id a = unique_id b \<Longrightarrow> a = b"
  by (meson distinct_map inj_onD)

lemma random_choice_mem: "xs \<noteq> [] \<Longrightarrow> fst (random_choice xs m) \<in> set xs"
proof -
  assume "xs \<noteq> []"
  then have "min (length xs - 1) k < length xs" for k by (cases xs) auto
  then show ?thesis
    by (simp add: random_choice_def random_random_def Let_def split_def)
qed

lemma random_choice_model: "snd (random_choice xs m) = m\<lparr>rand_idx := Suc (rand_idx m)\<rparr>"
  by (simp add: random_choice_def random_random_def Let_def split_def)

lemma move_step_agents:
  "\<exists>a'. agents (move_step a es m) = map (\<lambda>b. if unique_id b = unique_id a then a' else b) (agents m) \<and>
        (a' = a \<or> (\<exists>p. a' = a\<lparr>pos := p\<rparr>))"
proof (cases "movement m \<and> es \<noteq> []")
  case True
  then have "agents (move_step a es m) =
      map (\<lambda>b. if unique_id b = unique_id a then a\<lparr>pos := fst (random_choice es m)\<rparr> else b) (agents m)"
    by (simp add: move_step_def set_agent_def split_def random_choice_model)
  then show ?thesis by blast
next
  case False
  then have "agents (move_step a es m) =
      map (\<lambda>b. if unique_id b = unique_id a then a else b) (agents m)"
    by (auto simp: move_step_def set_agent_def)
  then show ?thesis by blast
qed

lemma citizen_step_agents:
  assumes "citizen_step a m = Inr m'"
  shows "\<exists>a'. agents m' = map (\<lambda>b. if unique_id b = unique_id a then a' else b) (agents m) \<and>
          unique_id a' = unique_id a \<and> breed a' = breed a \<and>
          (jail_sentence a \<noteq> 0 \<longrightarrow> a' = a\<lparr>jail_sentence := jail_sentence a - 1\<rparr>) \<and>
          (jail_sentence a = 0 \<longrightarrow> jail_sentence a' = 0)"
proof (cases "jail_sentence a \<noteq> 0")
  case True
  then show ?thesis using assms by (auto simp: citizen_step_def set_agent_def)
next
  case False
  then obtain a2 es m1 where m': "m' = move_step a2 es m1" and a2: "unique_id a2 = unique_id a"
    "breed a2 = breed a" "jail_sentence a2 = 0" and m1: "agents m1 = agents m"
    using assms
    by (auto simp: citizen_step_def update_network_arrest_probability_eq
        update_estimated_arrest_probability_eq Let_def split: if_splits sum.splits prod.splits)
  from move_step_agents[of a2 es m1] obtain a' where
    "agents m' = map (\<lambda>b. if unique_id b = unique_id a2 then a' else b) (agents m1)"
    "a' = a2 \<or> (\<exists>p. a' = a2\<lparr>pos := p\<rparr>)"
    unfolding m' by blast
  then show ?thesis using a2 m1 False by auto
qed

lemma cop_step_agents:
  assumes "cop_step a m = Inr m'"
  shows "\<exists>a' arrest.
           agents m' = map (\<lambda>b. if unique_id b = unique_id a then a' else apply_arrest arrest b)
                           (agents m) \<and>
           (a' = a \<or> (\<exists>p. a' = a\<lparr>pos := p\<rparr>)) \<and>
           (\<forall>r s. arrest = Some (r, s) \<longrightarrow>
                  r \<in> set (agents m) \<and> breed r = Citizen \<and> condition r = Active \<and>
                  jail_sentence r = 0)"
proof -
  define nbrs where "nbrs = fst (update_neighbors m a)"
  define es where "es = snd (update_neighbors m a)"
  define act where "act = filter (\<lambda>c. breed c = Citizen \<and> condition c = Active \<and> jail_sentence c = 0) nbrs"
  have sub: "set act \<subseteq> set (agents m)"
    by (auto simp: act_def nbrs_def update_neighbors_def get_cell_list_contents_def Let_def)
  show ?thesis
  proof (cases "act = []")
    case True
    then have m': "m' = move_step a es m"
      using assms by (simp add: cop_step_def Let_def split_def act_def nbrs_def es_def)
    from move_step_agents[of a es m] obtain a' where
      a': "agents m' = map (\<lambda>b. if unique_id b = unique_id a then a' else b) (agents m)"
      "a' = a \<or> (\<exists>p. a' = a\<lparr>pos := p\<rparr>)"
      unfolding m' by blast
    show ?thesis
      using a' by (intro exI[of _ a'] exI[of _ None]) (simp add: apply_arrest_def)
  next
    case False
    define r where "r = fst (random_choice act m)"
    have r: "r \<in> set act" using False by (simp add: r_def random_choice_mem)
    from assms False obtain s m2 where
      m': "m' = move_step a es (set_agent (r\<lparr>jail_sentence := s, condition := Quiescent\<rparr>) m2)"
      and m2: "agents m2 = agents m"
      by (auto simp: cop_step_def Let_def split_def act_def nbrs_def es_def r_def
          random_randint_def random_random_def random_choice_model split: sum.splits if_splits)
    have ar: "agents (set_agent (r\<lparr>jail_sentence := s, condition := Quiescent\<rparr>) m2) =
                map (apply_arrest (Some (r, s))) (agents m)"
      by (simp add: set_agent_def m2 apply_arrest_def)
    from move_step_agents[of a es "set_agent (r\<lparr>jail_sentence := s, condition := Quiescent\<rparr>) m2"]
    obtain a' where a': "agents m' = map (\<lambda>b. if unique_id b = unique_id a then a' else b)
        (agents (set_agent (r\<lparr>jail_sentence := s, condition := Quiescent\<rparr>) m2))"
      "a' = a \<or> (\<exists>p. a' = a\<lparr>pos := p\<rparr>)"
      unfolding m' by blast
    have idr: "unique_id (apply_arrest (Some (r, s)) x) = unique_id x" for x
      by (simp add: apply_arrest_def)
    have "agents m' = map (\<lambda>b. if unique_id b = unique_id a then a' else apply_arrest (Some (r, s)) b)
                          (agents m)"
      unfolding a'(1) ar by (simp add: idr)
    moreover have "r \<in> set (agents m) \<and> breed r = Citizen \<and> condition r = Active \<and> jail_sentence r = 0"
      using r sub by (auto simp: act_def)
    ultimately show ?thesis
      using a'(2) by (intro exI[of _ a'] exI[of _ "Some (r, s)"]) simp
  qed
qed

lemma find_map_id_preserving:
  "(\<forall>x\<in>set xs. unique_id (g x) = unique_id x) \<Longrightarrow>
   find (\<lambda>a. unique_id a = i) (map g xs) = map_option g (find (\<lambda>a. unique_id a = i) xs)"
  by (induction xs) auto

lemma citizen_step_by_id:
  assumes "citizen_step a m = Inr m'"
  shows "\<exists>a'. (\<forall>i. agent_by_id m' i =
                 map_option (\<lambda>b. if unique_id b = unique_id a then a' else b) (agent_by_id m i)) \<and>
          map unique_id (agents m') = map unique_id (agents m) \<and>
          unique_id a' = unique_id a \<and> breed a' = breed a \<and>
          (jail_sentence a \<noteq> 0 \<longrightarrow> a' = a\<lparr>jail_sentence := jail_sentence a - 1\<rparr>) \<and>
          (jail_sentence a = 0 \<longrightarrow> jail_sentence a' = 0)"
proof -
  from citizen_step_agents[OF assms] obtain a' where
    ag: "agents m' = map (\<lambda>b. if unique_id b = unique_id a then a' else b) (agents m)"
    and a': "unique_id a' = unique_id a" "breed a' = breed a"
      "jail_sentence a \<noteq> 0 \<longrightarrow> a' = a\<lparr>jail_sentence := jail_sentence a - 1\<rparr>"
      "jail_sentence a = 0 \<longrightarrow> jail_sentence a' = 0"
    by blast
  have "agent_by_id m' i =
          map_option (\<lambda>b. if unique_id b = unique_id a then a' else b) (agent_by_id m i)" for i
    unfolding agent_by_id_def ag using a'(1) by (intro find_map_id_preserving) auto
  moreover have "map unique_id (agents m') = map unique_id (agents m)"
    unfolding ag using a'(1) by (induction "agents m") auto
  ultimately show ?thesis using a' by blast
qed

lemma map_ids_preserving:
  "(\<forall>x\<in>set xs. unique_id (g x) = unique_id x) \<Longrightarrow> map unique_id (map g xs) = map unique_id xs"
  by (induction xs) auto

lemma cop_step_by_id:
  assumes "cop_step a m = Inr m'"
  shows "\<exists>a' arrest.
           (\<forall>i. agent_by_id m' i =
                 map_option (\<lambda>b. if unique_id b = unique_id a then a' else apply_arrest arrest b)
                            (agent_by_id m i)) \<and>
           map unique_id (agents m') = map unique_id (agents m) \<and>
           (a' = a \<or> (\<exists>p. a' = a\<lparr>pos := p\<rparr>)) \<and>
           (\<forall>r s. arrest = Some (r, s) \<longrightarrow>
                  r \<in> set (agents m) \<and> breed r = Citizen \<and> condition r = Active \<and>
                  jail_sentence r = 0)"
proof -
  from cop_step_agents[OF assms] obtain a' arrest where
    ag: "agents m' = map (\<lambda>b. if unique_id b = unique_id a then a' else apply_arrest arrest b)
                         (agents m)"
    and a': "a' = a \<or> (\<exists>p. a' = a\<lparr>pos := p\<rparr>)"
    and f: "\<forall>r s. arrest = Some (r, s) \<longrightarrow>
                  r \<in> set (agents m) \<and> breed r = Citizen \<and> condition r = Active \<and>
                  jail_sentence r = 0"
    by blast
  have ida: "unique_id a' = unique_id a" using a' by auto
  have idf: "unique_id (apply_arrest arrest x) = unique_id x" for x
    by (simp add: apply_arrest_def split: option.splits prod.splits)
  let ?g = "\<lambda>b. if unique_id b = unique_id a then a' else apply_arrest arrest b"
  have idg: "\<forall>x\<in>set (agents m). unique_id (?g x) = unique_id x" using ida idf by simp
  have 1: "\<forall>i. agent_by_id m' i = map_option ?g (agent_by_id m i)"
    unfolding agent_by_id_def ag using find_map_id_preserving[OF idg] by blast
  have 2: "map unique_id (agents m') = map unique_id (agents m)"
    unfolding ag by (rule map_ids_preserving[OF idg])
  show ?thesis
    using 1 2 a' f by (intro exI[of _ a'] exI[of _ arrest]) simp
qed

lemma agent_step_ids:
  assumes "agent_step j m = Inr m'"
  shows "map unique_id (agents m') = map unique_id (agents m)"
proof (cases "agent_by_id m j")
  case None
  then show ?thesis using assms by (simp add: agent_step_def)
next
  case (Some a)
  show ?thesis
  proof (cases "breed a")
    case Citizen
    then have "citizen_step a m = Inr m'" using assms Some by (simp add: agent_step_def)
    from citizen_step_by_id[OF this] show ?thesis by blast
  next
    case Cop
    then have "cop_step a m = Inr m'" using assms Some by (simp add: agent_step_def)
    from cop_step_by_id[OF this] show ?thesis by blast
  qed
qed

lemma agent_step_unique_ids: "agent_step j m = Inr m' \<Longrightarrow> unique_ids m \<Longrightarrow> unique_ids m'"
  by (simp add: unique_ids_def agent_step_ids)

lemma schedule_step_unique_ids: "schedule_step order m = Inr m' \<Longrightarrow> unique_ids m \<Longrightarrow> unique_ids m'"
  by (induction order arbitrary: m) (auto split: sum.splits dest: agent_step_unique_ids)

text \<open>One activation changes the countdown of an agent only downwards, or by an arrest.\<close>

lemma agent_step_effect:
  assumes u: "unique_ids m" and b: "agent_by_id m i = Some b" and s: "agent_step j m = Inr m'"
  shows "\<exists>b'. agent_by_id m' i = Some b' \<and>
           ((i \<noteq> j \<and> b' = b) \<or>
            (i = j \<and> breed b = Cop \<and> (b' = b \<or> (\<exists>p. b' = b\<lparr>pos := p\<rparr>))) \<or>
            (i = j \<and> breed b = Citizen \<and> jail_sentence b \<noteq> 0 \<and>
               b' = b\<lparr>jail_sentence := jail_sentence b - 1\<rparr>) \<or>
            (i = j \<and> breed b = Citizen \<and> jail_sentence b = 0 \<and> jail_sentence b' = 0) \<or>
            (i \<noteq> j \<and> breed b = Citizen \<and> jail_sentence b = 0 \<and> condition b = Active \<and>
               condition b' = Quiescent \<and> (\<exists>c. agent_by_id m j = Some c \<and> breed c = Cop)))"
proof (cases "agent_by_id m j")
  case None
  then show ?thesis using s b by (auto simp: agent_step_def)
next
  case (Some a)
  have ja: "unique_id a = j" "a \<in> set (agents m)" using agent_by_id_Some[OF Some] by auto
  have ib: "unique_id b = i" "b \<in> set (agents m)" using agent_by_id_Some[OF b] by auto
  have same: "i = j \<Longrightarrow> a = b" using Some b by simp
  show ?thesis
  proof (cases "breed a")
    case Citizen
    then have "citizen_step a m = Inr m'" using s Some by (simp add: agent_step_def)
    from citizen_step_by_id[OF this] obtain a' where
      by_id: "agent_by_id m' i = map_option (\<lambda>b. if unique_id b = unique_id a then a' else b) (agent_by_id m i)"
      and a': "unique_id a' = unique_id a" "breed a' = breed a"
        "jail_sentence a \<noteq> 0 \<longrightarrow> a' = a\<lparr>jail_sentence := jail_sentence a - 1\<rparr>"
        "jail_sentence a = 0 \<longrightarrow> jail_sentence a' = 0"
      by blast
    show ?thesis
    proof (cases "i = j")
      case True
      then have "agent_by_id m' i = Some a'" using by_id b ib ja by simp
      then show ?thesis using a' same[OF True] True Citizen by auto
    next
      case False
      then have "agent_by_id m' i = Some b" using by_id b ib ja by simp
      then show ?thesis using False by simp
    qed
  next
    case Cop
    then have "cop_step a m = Inr m'" using s Some by (simp add: agent_step_def)
    from cop_step_by_id[OF this] obtain a' arrest where
      by_id: "agent_by_id m' i = map_option (\<lambda>b. if unique_id b = unique_id a then a'
                                                   else apply_arrest arrest b) (agent_by_id m i)"
      and a': "a' = a \<or> (\<exists>p. a' = a\<lparr>pos := p\<rparr>)"
      and f: "\<forall>r s. arrest = Some (r, s) \<longrightarrow>
                  r \<in> set (agents m) \<and> breed r = Citizen \<and> condition r = Active \<and>
                  jail_sentence r = 0"
      by blast
    show ?thesis
    proof (cases "i = j")
      case True
      then have "agent_by_id m' i = Some a'" using by_id b ib ja by simp
      then show ?thesis using a' same[OF True] True Cop by auto
    next
      case False
      then have bi: "agent_by_id m' i = Some (apply_arrest arrest b)" using by_id b ib ja by simp
      show ?thesis
      proof (cases arrest)
        case None
        then show ?thesis using bi False by (simp add: apply_arrest_def)
      next
        case (Some rs)
        obtain r s where rs: "rs = (r, s)" by (cases rs)
        have r: "r \<in> set (agents m)" "breed r = Citizen" "condition r = Active"
          "jail_sentence r = 0"
          using f Some rs by auto
        show ?thesis
        proof (cases "unique_id b = unique_id r")
          case True
          then have "b = r"
            using distinct_ids_unique[OF u[unfolded unique_ids_def] ib(2) r(1)] by simp
          then show ?thesis
            using bi Some rs r False \<open>agent_by_id m j = Some a\<close> Cop
            by (simp add: apply_arrest_def)
        next
          case False
          then show ?thesis using bi Some rs \<open>i \<noteq> j\<close> by (simp add: apply_arrest_def)
        qed
      qed
    qed
  qed
qed

section \<open>The invariants after construction\<close>

lemma place_agents_invariants:
  "place_agents p cs (m, uid, ids) = (m', uid', ids') \<Longrightarrow>
   distinct (map unique_id (agents m)) \<Longrightarrow> \<forall>a \<in> set (agents m). unique_id a < uid \<Longrightarrow>
   \<forall>a \<in> set (agents m). jail_sentence a = 0 \<Longrightarrow>
   distinct (map unique_id (agents m')) \<and> (\<forall>a \<in> set (agents m'). jail_sentence a = 0)"
proof (induction cs arbitrary: m uid ids)
  case Nil
  then show ?case by simp
next
  case (Cons c cs)
  obtain x m1 where r1: "random_random m = (x, m1)" by (cases "random_random m")
  obtain y m2 where r2: "random_random m1 = (y, m2)" by (cases "random_random m1")
  obtain h m3 where r3: "random_random m2 = (h, m3)" by (cases "random_random m2")
  obtain r m4 where r4: "random_random m3 = (r, m4)" by (cases "random_random m3")
  have ag: "agents m1 = agents m" "agents m2 = agents m" "agents m4 = agents m"
    using r1 r2 r3 r4 by (auto simp: random_random_def)
  consider (cop) "x < arg_cop_density p"
    | (cit) "\<not> x < arg_cop_density p" "y < arg_cop_density p + arg_citizen_density p"
    | (none) "\<not> x < arg_cop_density p" "\<not> y < arg_cop_density p + arg_citizen_density p"
    by blast
  then show ?case
  proof cases
    case cop
    let ?m = "m1\<lparr>agents := agents m1 @ [new_cop uid c (arg_cop_vision p)]\<rparr>"
    have "place_agents p cs (?m, uid + 1, ids) = (m', uid', ids')"
      using Cons.prems(1) r1 cop by simp
    moreover have "distinct (map unique_id (agents ?m))"
      using Cons.prems(2,3) ag by (auto simp: new_cop_def)
    moreover have "\<forall>a \<in> set (agents ?m). unique_id a < uid + 1"
      using Cons.prems(3) ag by (auto simp: new_cop_def less_Suc_eq)
    moreover have "\<forall>a \<in> set (agents ?m). jail_sentence a = 0"
      using Cons.prems(4) ag by (auto simp: new_cop_def)
    ultimately show ?thesis by (rule Cons.IH)
  next
    case cit
    let ?m = "m4\<lparr>agents := agents m4 @
                [new_citizen uid c h (arg_legitimacy p) r (arg_active_threshold p)
                   (arg_citizen_vision p)]\<rparr>"
    have "place_agents p cs (?m, uid + 1, ids @ [uid]) = (m', uid', ids')"
      using Cons.prems(1) r1 r2 r3 r4 cit by simp
    moreover have "distinct (map unique_id (agents ?m))"
      using Cons.prems(2,3) ag by (auto simp: new_citizen_def)
    moreover have "\<forall>a \<in> set (agents ?m). unique_id a < uid + 1"
      using Cons.prems(3) ag by (auto simp: new_citizen_def less_Suc_eq)
    moreover have "\<forall>a \<in> set (agents ?m). jail_sentence a = 0"
      using Cons.prems(4) ag by (auto simp: new_citizen_def)
    ultimately show ?thesis by (rule Cons.IH)
  next
    case none
    have "place_agents p cs (m2, uid, ids) = (m', uid', ids')"
      using Cons.prems(1) r1 r2 none by simp
    then show ?thesis using Cons.IH[of m2 uid ids] Cons.prems(2-4) ag by simp
  qed
qed

lemma init_invariants:
  assumes "init p = Inr m"
  shows "unique_ids m" "jailed_are_quiescent m"
proof -
  from init_Inr[OF assms] obtain m0 uid ids where
    pl: "place_agents p (coord_iter (arg_width p) (arg_height p)) (initial_model p, 0, []) =
           (m0, uid, ids)"
    and a: "agents m = agents m0"
    by blast
  have "distinct (map unique_id (agents m0)) \<and> (\<forall>a \<in> set (agents m0). jail_sentence a = 0)"
    by (rule place_agents_invariants[OF pl]) (simp_all add: initial_model_def)
  then show "unique_ids m" "jailed_are_quiescent m"
    using a by (simp_all add: unique_ids_def jailed_are_quiescent_def list_all_iff)
qed

section \<open>Jailed citizens\<close>

lemma rest_of_tick:
  "unique_ids m \<Longrightarrow> agent_by_id m i = Some b \<Longrightarrow>
   jail_sentence b \<noteq> 0 \<or> condition b = Quiescent \<Longrightarrow> i \<notin> set order \<Longrightarrow>
   schedule_step order m = Inr m' \<Longrightarrow> agent_by_id m' i = Some b"
proof (induction order arbitrary: m)
  case Nil
  then show ?case by simp
next
  case (Cons j order)
  from Cons.prems(5) obtain m1 where s1: "agent_step j m = Inr m1"
    and s2: "schedule_step order m1 = Inr m'"
    by (auto split: sum.splits)
  have ij: "i \<noteq> j" "i \<notin> set order" using Cons.prems(4) by auto
  from agent_step_effect[OF Cons.prems(1,2) s1] ij(1) Cons.prems(3)
  have "agent_by_id m1 i = Some b" by auto
  moreover have "unique_ids m1" using agent_step_unique_ids[OF s1 Cons.prems(1)] .
  ultimately show ?case using Cons.IH[OF _ _ Cons.prems(3) ij(2) s2] by blast
qed

lemma list_all_map_preserve:
  "list_all P xs \<Longrightarrow> (\<forall>x\<in>set xs. P x \<longrightarrow> P (g x)) \<Longrightarrow> list_all P (map g xs)"
  by (induction xs) auto

lemma agent_step_jailed_are_quiescent:
  assumes q: "jailed_are_quiescent m" and s: "agent_step j m = Inr m'"
  shows "jailed_are_quiescent m'"
proof (cases "agent_by_id m j")
  case None
  then show ?thesis using s q by (simp add: agent_step_def)
next
  case (Some a)
  let ?P = "\<lambda>a. jail_sentence a \<noteq> 0 \<longrightarrow> condition a = Quiescent"
  have a: "a \<in> set (agents m)" using agent_by_id_Some[OF Some] by simp
  then have Pa: "?P a" using q by (simp add: jailed_are_quiescent_def list_all_iff)
  show ?thesis
  proof (cases "breed a")
    case Citizen
    then have "citizen_step a m = Inr m'" using s Some by (simp add: agent_step_def)
    from citizen_step_agents[OF this] obtain a' where
      ag: "agents m' = map (\<lambda>b. if unique_id b = unique_id a then a' else b) (agents m)"
      and a': "jail_sentence a \<noteq> 0 \<longrightarrow> a' = a\<lparr>jail_sentence := jail_sentence a - 1\<rparr>"
        "jail_sentence a = 0 \<longrightarrow> jail_sentence a' = 0"
      by blast
    have "?P a'" using a' Pa by (cases "jail_sentence a = 0") auto
    then show ?thesis
      unfolding jailed_are_quiescent_def ag
      using q[unfolded jailed_are_quiescent_def] by (intro list_all_map_preserve) auto
  next
    case Cop
    then have "cop_step a m = Inr m'" using s Some by (simp add: agent_step_def)
    from cop_step_agents[OF this] obtain a' arrest where
      ag: "agents m' = map (\<lambda>b. if unique_id b = unique_id a then a' else apply_arrest arrest b)
                           (agents m)"
      and a': "a' = a \<or> (\<exists>p. a' = a\<lparr>pos := p\<rparr>)"
      by blast
    have "?P a'" using a' Pa by auto
    moreover have "?P x \<longrightarrow> ?P (apply_arrest arrest x)" for x
      by (simp add: apply_arrest_def split: option.splits prod.splits)
    ultimately show ?thesis
      unfolding jailed_are_quiescent_def ag
      using q[unfolded jailed_are_quiescent_def] by (intro list_all_map_preserve) auto
  qed
qed

lemma schedule_step_jailed_are_quiescent:
  "jailed_are_quiescent m \<Longrightarrow> schedule_step order m = Inr m' \<Longrightarrow> jailed_are_quiescent m'"
  by (induction order arbitrary: m) (auto split: sum.splits dest: agent_step_jailed_are_quiescent)

lemma end_tick_agents: "end_tick s = Inr s' \<Longrightarrow> agents s' = agents s"
  using end_tick_effect by blast

lemma step_invariants:
  assumes "step order m = Inr m'" "unique_ids m" "jailed_are_quiescent m"
  shows "unique_ids m' \<and> jailed_are_quiescent m'"
proof -
  from assms(1) obtain m1 where s: "schedule_step order (begin_tick m) = Inr m1"
    and e: "end_tick m1 = Inr m'"
    by (auto simp: step_def split: sum.splits)
  have "unique_ids (begin_tick m)" "jailed_are_quiescent (begin_tick m)"
    using assms(2,3) by (simp_all add: unique_ids_def jailed_are_quiescent_def begin_tick_def)
  then have "unique_ids m1" "jailed_are_quiescent m1"
    using schedule_step_unique_ids[OF s] schedule_step_jailed_are_quiescent[OF _ s] by auto
  then show ?thesis using end_tick_agents[OF e] by (simp add: unique_ids_def jailed_are_quiescent_def)
qed

text \<open>
  C6, as the code has it. In a tick that starts in a state with unique identities where every
  jailed agent is Quiescent (both hold after construction and are kept by every tick), take a
  citizen whose jail countdown is positive when its activation begins, after the activations
  \<open>before\<close>, and that is not activated again in the tick. At the end of the tick it is the
  same agent with the countdown one lower than at the start of its activation: its condition
  and position are unchanged, and no cop activated after it arrested it. While its countdown
  is positive no activation of another agent, cop or citizen, changes it at all; so if the
  countdown was already positive when the tick started, the citizen is unchanged until its
  activation and the countdown falls by exactly 1 over the whole tick. For every agent, an
  activation lowers the countdown or leaves it, unless a cop arrests the agent, which happens
  only to a citizen that is out of jail and Active; the other parts of a tick do not touch
  the agents.
\<close>

theorem jailed_citizen_tick:
  assumes u: "unique_ids m" and q: "jailed_are_quiescent m"
    and before: "schedule_step before m = Inr m1"
    and a: "agent_by_id m1 i = Some a" "breed a = Citizen" "0 < jail_sentence a"
    and after: "i \<notin> set after" "schedule_step (i # after) m1 = Inr m'"
  shows "agent_by_id m' i = Some (a\<lparr>jail_sentence := jail_sentence a - 1\<rparr>) \<and>
         (\<forall>j s s'. unique_ids s \<and> agent_by_id s i = Some a \<and> j \<noteq> i \<and> agent_step j s = Inr s' \<longrightarrow>
                   agent_by_id s' i = Some a) \<and>
         (\<forall>j s s' b. unique_ids s \<and> agent_by_id s i = Some b \<and> agent_step j s = Inr s' \<longrightarrow>
            (\<exists>b'. agent_by_id s' i = Some b' \<and>
                  (jail_sentence b' \<le> jail_sentence b \<or>
                   (jail_sentence b = 0 \<and> condition b = Active \<and> condition b' = Quiescent \<and>
                    (\<exists>c. agent_by_id s j = Some c \<and> breed c = Cop))))) \<and>
         (\<forall>s s'. end_tick s = Inr s' \<longrightarrow> agents s' = agents s) \<and>
         (\<forall>s. agents (begin_tick s) = agents s) \<and>
         (\<forall>a0. agent_by_id m i = Some a0 \<and> 0 < jail_sentence a0 \<and> i \<notin> set before \<longrightarrow>
               a = a0 \<and> agent_by_id m' i = Some (a0\<lparr>jail_sentence := jail_sentence a0 - 1\<rparr>))"
proof (intro conjI allI impI)
  have u1: "unique_ids m1" by (rule schedule_step_unique_ids[OF before u])
  have q1: "jailed_are_quiescent m1" by (rule schedule_step_jailed_are_quiescent[OF q before])
  from after(2) obtain m2 where s1: "agent_step i m1 = Inr m2"
    and s2: "schedule_step after m2 = Inr m'"
    by (auto split: sum.splits)
  have a2: "agent_by_id m2 i = Some (a\<lparr>jail_sentence := jail_sentence a - 1\<rparr>)"
    using agent_step_effect[OF u1 a(1) s1] a(2,3) by auto
  have "a \<in> set (agents m1)" using agent_by_id_Some[OF a(1)] by simp
  then have "condition a = Quiescent"
    using q1 a(3) by (auto simp: jailed_are_quiescent_def list_all_iff)
  then have c: "jail_sentence (a\<lparr>jail_sentence := jail_sentence a - 1\<rparr>) \<noteq> 0 \<or>
                condition (a\<lparr>jail_sentence := jail_sentence a - 1\<rparr>) = Quiescent"
    by simp
  show "agent_by_id m' i = Some (a\<lparr>jail_sentence := jail_sentence a - 1\<rparr>)"
    by (rule rest_of_tick[OF agent_step_unique_ids[OF s1 u1] a2 c after(1) s2])
next
  fix j s s'
  assume h: "unique_ids s \<and> agent_by_id s i = Some a \<and> j \<noteq> i \<and> agent_step j s = Inr s'"
  then show "agent_by_id s' i = Some a"
    using agent_step_effect[of s i a j s'] a(3) by auto
next
  fix j s s' b
  assume h: "unique_ids s \<and> agent_by_id s i = Some b \<and> agent_step j s = Inr s'"
  then obtain b' where b': "agent_by_id s' i = Some b'"
    and e: "b' = b \<or> (i = j \<and> (\<exists>p. b' = b\<lparr>pos := p\<rparr>) \<and> breed b = Cop) \<or>
            (i = j \<and> breed b = Citizen \<and> jail_sentence b \<noteq> 0 \<and>
               b' = b\<lparr>jail_sentence := jail_sentence b - 1\<rparr>) \<or>
            (i = j \<and> breed b = Citizen \<and> jail_sentence b = 0 \<and> jail_sentence b' = 0) \<or>
            (i \<noteq> j \<and> breed b = Citizen \<and> jail_sentence b = 0 \<and> condition b = Active \<and>
               condition b' = Quiescent \<and> (\<exists>c. agent_by_id s j = Some c \<and> breed c = Cop))"
    using agent_step_effect[of s i b j s'] by blast
  have "jail_sentence b' \<le> jail_sentence b \<or>
                   (jail_sentence b = 0 \<and> condition b = Active \<and> condition b' = Quiescent \<and>
                    (\<exists>c. agent_by_id s j = Some c \<and> breed c = Cop))"
    using e by auto
  then show "\<exists>b'. agent_by_id s' i = Some b' \<and>
                  (jail_sentence b' \<le> jail_sentence b \<or>
                   (jail_sentence b = 0 \<and> condition b = Active \<and> condition b' = Quiescent \<and>
                    (\<exists>c. agent_by_id s j = Some c \<and> breed c = Cop)))"
    using b' by blast
next
  fix s s' assume "end_tick s = Inr s'"
  then show "agents s' = agents s" by (rule end_tick_agents)
next
  fix s show "agents (begin_tick s) = agents s" by (simp add: begin_tick_def)
next
  have u1: "unique_ids m1" by (rule schedule_step_unique_ids[OF before u])
  have q1: "jailed_are_quiescent m1" by (rule schedule_step_jailed_are_quiescent[OF q before])
  from after(2) obtain m2 where s1: "agent_step i m1 = Inr m2"
    and s2: "schedule_step after m2 = Inr m'"
    by (auto split: sum.splits)
  have a2: "agent_by_id m2 i = Some (a\<lparr>jail_sentence := jail_sentence a - 1\<rparr>)"
    using agent_step_effect[OF u1 a(1) s1] a(2,3) by auto
  have "a \<in> set (agents m1)" using agent_by_id_Some[OF a(1)] by simp
  then have "condition a = Quiescent"
    using q1 a(3) by (auto simp: jailed_are_quiescent_def list_all_iff)
  then have c: "jail_sentence (a\<lparr>jail_sentence := jail_sentence a - 1\<rparr>) \<noteq> 0 \<or>
                condition (a\<lparr>jail_sentence := jail_sentence a - 1\<rparr>) = Quiescent"
    by simp
  have final: "agent_by_id m' i = Some (a\<lparr>jail_sentence := jail_sentence a - 1\<rparr>)"
    by (rule rest_of_tick[OF agent_step_unique_ids[OF s1 u1] a2 c after(1) s2])
  fix a0
  assume h: "agent_by_id m i = Some a0 \<and> 0 < jail_sentence a0 \<and> i \<notin> set before"
  then have "jail_sentence a0 \<noteq> 0 \<or> condition a0 = Quiescent" by simp
  from rest_of_tick[OF u _ this _ before, of i] h have "agent_by_id m1 i = Some a0" by simp
  then have e: "a = a0" using a(1) by simp
  show "a = a0" by (rule e)
  show "agent_by_id m' i = Some (a0\<lparr>jail_sentence := jail_sentence a0 - 1\<rparr>)"
    using final e by simp
qed

lemma jail_world_cop_step:
  "agent_step 0 jail_world = Inr jail_world"
proof -
  have f: "movement jail_world = False" "get_neighborhood jail_world = torus_moore 3 (Suc 0)"
    "agents jail_world = [new_cop 0 (0, 0) 1, (example_citizen 1 (1, 0))\<lparr>jail_sentence := 2\<rparr>]"
    by (simp_all add: jail_world_def initial_model_def example_params_def)
  note c = new_cop_fields
  have "cop_step (new_cop 0 (0, 0) 1) jail_world = Inr jail_world"
    by (simp add: cop_step_def update_neighbors_def Let_def f c nbhd get_cell_list_contents_def
        example_citizen_fields move_step_def set_agent_def)
  then show ?thesis by (simp add: agent_step_def agent_by_id_def f c)
qed

lemma jail_world_cop:
  "schedule_step [0] jail_world = Inr jail_world"
  by (simp only: schedule_step.simps jail_world_cop_step sum.case)

theorem jailed_citizen_tick_witness:
  "unique_ids jail_world \<and> jailed_are_quiescent jail_world \<and>
   schedule_step [0] jail_world = Inr jail_world \<and>
   agent_by_id jail_world 1 = Some ((example_citizen 1 (1, 0))\<lparr>jail_sentence := 2\<rparr>) \<and>
   breed ((example_citizen 1 (1, 0))\<lparr>jail_sentence := 2\<rparr>) = Citizen \<and>
   0 < jail_sentence ((example_citizen 1 (1, 0))\<lparr>jail_sentence := 2\<rparr>) \<and>
   1 \<notin> set ([] :: nat list) \<and> 1 \<notin> set [0 :: nat] \<and>
   (\<exists>m'. schedule_step [1] jail_world = Inr m' \<and> schedule_step [0, 1] jail_world = Inr m' \<and>
         agent_by_id m' 1 = Some ((example_citizen 1 (1, 0))\<lparr>jail_sentence := 1\<rparr>))"
proof -
  let ?c = "(example_citizen 1 (1, 0))\<lparr>jail_sentence := 2\<rparr>"
  have f: "agents jail_world = [new_cop 0 (0, 0) 1, ?c]"
    by (simp add: jail_world_def)
  note c = new_cop_fields
  have u: "unique_ids jail_world" by (simp add: unique_ids_def f c example_citizen_fields)
  have q: "jailed_are_quiescent jail_world"
    by (simp add: jailed_are_quiescent_def f c example_citizen_fields)
  have b: "agent_by_id jail_world 1 = Some ?c"
    by (simp add: agent_by_id_def f c example_citizen_fields)
  have s: "\<exists>m'. schedule_step [1] jail_world = Inr m'"
    using b by (simp add: agent_step_def example_citizen_fields citizen_step_def)
  then obtain m' where m': "schedule_step [1] jail_world = Inr m'" by blast
  have m2: "schedule_step [0, 1] jail_world = Inr m'"
    using m' by (simp only: schedule_step.simps jail_world_cop_step sum.case)
  have "agent_by_id m' 1 = Some (?c\<lparr>jail_sentence := jail_sentence ?c - 1\<rparr>)"
    by (rule jailed_citizen_tick[THEN conjunct1, OF u q jail_world_cop b _ _ _ m'])
      (simp_all add: example_citizen_fields)
  then have r: "agent_by_id m' 1 = Some ((example_citizen 1 (1, 0))\<lparr>jail_sentence := 1\<rparr>)"
    by (simp add: example_citizen_fields)
  have "\<exists>m'. schedule_step [1] jail_world = Inr m' \<and> schedule_step [0, 1] jail_world = Inr m' \<and>
         agent_by_id m' 1 = Some ((example_citizen 1 (1, 0))\<lparr>jail_sentence := 1\<rparr>)"
    by (rule exI[of _ m']) (simp only: m' m2 r simp_thms)
  moreover have "breed ?c = Citizen" "0 < jail_sentence ?c" "1 \<notin> set ([] :: nat list)"
    "1 \<notin> set [0 :: nat]"
    by (simp_all add: example_citizen_fields)
  ultimately show ?thesis using u q jail_world_cop b by (simp only: simp_thms)
qed

lemma arrest_neighbors:
  fixes B :: model
  assumes f: "movement B = False" "get_neighborhood B = torus_moore 3 (Suc 0)"
    "max_jail_term B = 30" "rand B = (\<lambda>i. 1 / 2)"
  shows "update_neighbors (B\<lparr>agents := [new_cop 0 (0, 0) 1, (example_citizen 1 (1, 0))\<lparr>condition := Active\<rparr>]\<rparr>) (new_cop 0 (0, 0) 1)
     = ([(example_citizen 1 (1, 0))\<lparr>condition := Active\<rparr>], [(2,0)])"
  by (simp add: update_neighbors_def Let_def f new_cop_fields nbhd get_cell_list_contents_def
        example_citizen_fields is_cell_empty_def)

lemma choice_singleton: "random_choice [x] m = (x, m\<lparr>rand_idx := Suc (rand_idx m)\<rparr>)"
  by (simp add: random_choice_def random_random_def)

lemma randint_half:
  "rand m (rand_idx m) = 1 / 2 \<Longrightarrow>
   random_randint 0 30 m = Inr (15, m\<lparr>rand_idx := Suc (rand_idx m)\<rparr>)"
proof -
  assume r: "rand m (rand_idx m) = 1 / 2"
  have "\<lfloor>(1 / 2 :: real) * real_of_int (30 - 0 + 1)\<rfloor> = 15" by (simp add: floor_eq_iff)
  then show ?thesis by (simp add: random_randint_def random_random_def r)
qed

lemma arrest_cop_step:
  fixes B :: model
  assumes f: "movement B = False" "get_neighborhood B = torus_moore 3 (Suc 0)"
    "max_jail_term B = 30" "rand B = (\<lambda>i. 1 / 2)"
  shows "cop_step (new_cop 0 (0, 0) 1) (B\<lparr>agents := [new_cop 0 (0, 0) 1, (example_citizen 1 (1, 0))\<lparr>condition := Active\<rparr>]\<rparr>)
     = Inr (B\<lparr>agents := [new_cop 0 (0, 0) 1, (example_citizen 1 (1, 0))\<lparr>condition := Active\<rparr>\<lparr>jail_sentence := 15, condition := Quiescent\<rparr>], rand_idx := Suc (Suc (rand_idx B))\<rparr>)"
proof -
  let ?w = "B\<lparr>agents := [new_cop 0 (0, 0) 1, (example_citizen 1 (1, 0))\<lparr>condition := Active\<rparr>]\<rparr>"
  let ?w1 = "?w\<lparr>rand_idx := Suc (rand_idx ?w)\<rparr>"
  have r: "rand ?w1 (rand_idx ?w1) = 1 / 2" by (simp add: f)
  have mj: "max_jail_term ?w1 = 30" by (simp add: f)
  have ri: "random_randint 0 (max_jail_term ?w1) ?w1 = Inr (15, ?w1\<lparr>rand_idx := Suc (rand_idx ?w1)\<rparr>)"
    unfolding mj by (rule randint_half[OF r])
  have mv: "\<And>a es upd. move_step a es (set_agent upd (?w1\<lparr>rand_idx := Suc (rand_idx ?w1)\<rparr>)) =
      set_agent a (set_agent upd (?w1\<lparr>rand_idx := Suc (rand_idx ?w1)\<rparr>))"
    by (simp add: move_step_def set_agent_def f)
  have act: "filter (\<lambda>c. breed c = Citizen \<and> condition c = Active \<and> jail_sentence c = 0)
                [(example_citizen 1 (1, 0))\<lparr>condition := Active\<rparr>] =
             [(example_citizen 1 (1, 0))\<lparr>condition := Active\<rparr>]"
    by (simp add: example_citizen_fields)
  have rc: "random_choice [(example_citizen 1 (1, 0))\<lparr>condition := Active\<rparr>] ?w =
              ((example_citizen 1 (1, 0))\<lparr>condition := Active\<rparr>, ?w1)"
    by (rule choice_singleton)
  have "cop_step (new_cop 0 (0, 0) 1) ?w =
          Inr (set_agent (new_cop 0 (0, 0) 1)
                 (set_agent ((example_citizen 1 (1, 0))\<lparr>condition := Active\<rparr>
                               \<lparr>jail_sentence := 15, condition := Quiescent\<rparr>)
                    (?w1\<lparr>rand_idx := Suc (rand_idx ?w1)\<rparr>)))"
    unfolding cop_step_def arrest_neighbors[OF f]
    by (simp only: Let_def prod.case act rc ri sum.case mv list.simps simp_thms if_True)
  also have "\<dots> = Inr (B\<lparr>agents := [new_cop 0 (0, 0) 1, (example_citizen 1 (1, 0))\<lparr>condition := Active\<rparr>\<lparr>jail_sentence := 15, condition := Quiescent\<rparr>], rand_idx := Suc (Suc (rand_idx B))\<rparr>)"
    by (simp add: set_agent_def new_cop_fields example_citizen_fields)
  finally show ?thesis .
qed

text \<open>
  The claim as stated lets no cop arrest the citizen during the tick and has the countdown
  fall by exactly 1 in the tick. In \<open>arrest_world\<close> the citizen starts the tick out of jail
  and Active. The cop is activated first and arrests it with a sentence of 15, so the
  citizen's countdown is positive when its own activation begins; that activation lowers it
  to 14. Over the tick the countdown goes from 0 to 14 and the condition from Active to
  Quiescent.
\<close>

theorem arrested_earlier_in_tick_counterexample:
  "unique_ids arrest_world \<and> jailed_are_quiescent arrest_world \<and>
   map breed (agents arrest_world) = [Cop, Citizen] \<and>
   map jail_sentence (agents arrest_world) = [0, 0] \<and>
   map condition (agents arrest_world) = [Quiescent, Active] \<and>
   (\<exists>m1 m'. schedule_step [0] arrest_world = Inr m1 \<and>
            schedule_step [1] m1 = Inr m' \<and>
            schedule_step [0, 1] arrest_world = Inr m' \<and>
            map jail_sentence (agents m1) = [0, 15] \<and>
            map condition (agents m1) = [Quiescent, Quiescent] \<and>
            map jail_sentence (agents m') = [0, 14] \<and>
            map condition (agents m') = [Quiescent, Quiescent])"
proof -
  let ?c = "(example_citizen 1 (1, 0))\<lparr>condition := Active\<rparr>"
  let ?j = "?c\<lparr>jail_sentence := 15, condition := Quiescent\<rparr>"
  define B where "B = initial_model example_params"
  have f: "movement B = False" "get_neighborhood B = torus_moore 3 (Suc 0)"
    "max_jail_term B = 30" "rand B = (\<lambda>i. 1 / 2)"
    by (simp_all add: B_def initial_model_def example_params_def)
  have w: "arrest_world = B\<lparr>agents := [new_cop 0 (0, 0) 1, ?c]\<rparr>"
    by (simp add: arrest_world_def B_def)
  note c = new_cop_fields
  let ?m1 = "B\<lparr>agents := [new_cop 0 (0, 0) 1, ?j], rand_idx := Suc (Suc (rand_idx B))\<rparr>"
  have cop: "cop_step (new_cop 0 (0, 0) 1) arrest_world = Inr ?m1"
    unfolding w by (rule arrest_cop_step[OF f])
  have b0: "agent_by_id arrest_world 0 = Some (new_cop 0 (0, 0) 1)"
    by (simp add: w agent_by_id_def c)
  have a0: "agent_step 0 arrest_world = Inr ?m1"
    by (simp only: agent_step_def b0 option.case c breed.case cop)
  have s0: "schedule_step [0] arrest_world = Inr ?m1"
    by (simp only: schedule_step.simps a0 sum.case)
  let ?m2 = "B\<lparr>agents := [new_cop 0 (0, 0) 1, ?j\<lparr>jail_sentence := 14\<rparr>],
                rand_idx := Suc (Suc (rand_idx B))\<rparr>"
  have b1: "agent_by_id ?m1 1 = Some ?j"
    by (simp add: agent_by_id_def c example_citizen_fields)
  have j: "breed ?j = Citizen" "jail_sentence ?j \<noteq> 0" "jail_sentence ?j - 1 = 14"
    by (simp_all add: example_citizen_fields)
  have cit: "citizen_step ?j ?m1 = Inr ?m2"
    by (simp add: citizen_step_def set_agent_def c example_citizen_fields)
  have a1: "agent_step 1 ?m1 = Inr ?m2"
    by (simp only: agent_step_def b1 option.case j breed.case cit)
  have s1: "schedule_step [1] ?m1 = Inr ?m2"
    by (simp only: schedule_step.simps a1 sum.case)
  have s01: "schedule_step [0, 1] arrest_world = Inr ?m2"
    by (simp only: schedule_step.simps a0 a1 sum.case)
  have u: "unique_ids arrest_world" by (simp add: unique_ids_def w c example_citizen_fields)
  have q: "jailed_are_quiescent arrest_world"
    by (simp add: jailed_are_quiescent_def w c example_citizen_fields)
  have a: "map breed (agents arrest_world) = [Cop, Citizen]"
    "map jail_sentence (agents arrest_world) = [0, 0]"
    "map condition (agents arrest_world) = [Quiescent, Active]"
    by (simp_all add: w c example_citizen_fields)
  have r: "map jail_sentence (agents ?m1) = [0, 15]"
    "map condition (agents ?m1) = [Quiescent, Quiescent]"
    "map jail_sentence (agents ?m2) = [0, 14]"
    "map condition (agents ?m2) = [Quiescent, Quiescent]"
    by (simp_all add: c)
  have "\<exists>m1 m'. schedule_step [0] arrest_world = Inr m1 \<and>
            schedule_step [1] m1 = Inr m' \<and>
            schedule_step [0, 1] arrest_world = Inr m' \<and>
            map jail_sentence (agents m1) = [0, 15] \<and>
            map condition (agents m1) = [Quiescent, Quiescent] \<and>
            map jail_sentence (agents m') = [0, 14] \<and>
            map condition (agents m') = [Quiescent, Quiescent]"
    by (rule exI[of _ ?m1], rule exI[of _ ?m2]) (simp only: s0 s1 s01 r simp_thms)
  then show ?thesis
    by (simp only: u q a simp_thms)
qed

section \<open>The pending set\<close>

lemma ego_neighbor_is_live:
  assumes p: "prepare_ego m a = Inr (ego, d1, d2)" and v: "v \<in> set (neighbors ego (unique_id a))"
  shows "v \<in> set (nodes (G m)) \<and>
         (\<exists>c. edge_data (G m) (canonical (unique_id a) v) = Some c \<and> \<not> c > 0)"
proof -
  let ?i = "unique_id a"
  let ?ego1 = "subgraph (G m) (nodes_within (G m) ?i 2)"
  let ?pr = "remove_censored ?ego1"
  have ego: "ego = subgraph ?pr (nodes_within ?pr ?i 2)" by (rule prepare_ego_result(2)[OF p])
  have "v \<in> set (nodes ego)" "edge_data ego (canonical ?i v) \<noteq> None"
    using v by (simp_all add: neighbors_def)
  then have "v \<in> set (nodes (G m))" "edge_data ?pr (canonical ?i v) \<noteq> None"
    unfolding ego by (auto simp: subgraph_def remove_censored_def split: if_splits)
  moreover from this(2) have "\<exists>c. edge_data (G m) (canonical ?i v) = Some c \<and> \<not> c > 0"
    by (auto simp: subgraph_def remove_censored_def split: if_splits option.splits)
  ultimately show ?thesis by blast
qed

lemma prepare_ego_live_edges:
  assumes p: "prepare_ego m a = Inr (ego, d1, d2)"
  shows "canonical (unique_id a) ` set (neighbors ego (unique_id a)) =
         live_incident_edges (G m) (unique_id a)"
proof -
  have "set (neighbors ego (unique_id a)) =
        set (filter (\<lambda>v. case edge_data (G m) (canonical (unique_id a) v) of
                          None \<Rightarrow> False | Some c \<Rightarrow> \<not> c > 0) (nodes (G m)))"
  proof (intro set_eqI iffI)
    fix v assume "v \<in> set (neighbors ego (unique_id a))"
    from ego_neighbor_is_live[OF p this]
    show "v \<in> set (filter (\<lambda>v. case edge_data (G m) (canonical (unique_id a) v) of
                          None \<Rightarrow> False | Some c \<Rightarrow> \<not> c > 0) (nodes (G m)))"
      by auto
  next
    fix v assume "v \<in> set (filter (\<lambda>v. case edge_data (G m) (canonical (unique_id a) v) of
                          None \<Rightarrow> False | Some c \<Rightarrow> \<not> c > 0) (nodes (G m)))"
    then obtain c where "v \<in> set (nodes (G m))"
      "edge_data (G m) (canonical (unique_id a) v) = Some c" "\<not> c > 0"
      by (auto split: option.splits)
    from live_edge_included[OF p this(2,3,1)]
    show "v \<in> set (neighbors ego (unique_id a))" by simp
  qed
  then show ?thesis by (simp add: live_incident_edges_def)
qed

lemma fold_insert_set:
  "set (fold (\<lambda>v l. List.insert (f v) l) vs l0) = set l0 \<union> f ` set vs"
  by (induction vs arbitrary: l0) auto

lemma fold_insert_distinct:
  "distinct l0 \<Longrightarrow> distinct (fold (\<lambda>v l. List.insert (f v) l) vs l0)"
  by (induction vs arbitrary: l0) auto

lemma move_step_links: "link_to_censor (move_step a es m) = link_to_censor m"
  by (simp add: move_step_def set_agent_def random_choice_model split_def)

lemma citizen_step_links:
  assumes "citizen_step a m = Inr m'"
  shows "set (link_to_censor m') =
           set (link_to_censor m) \<union>
           (if jail_sentence a = 0 \<and> condition a = Active \<and> activation_type m = ''With SWN''
            then live_incident_edges (G m) (unique_id a) else {}) \<and>
         (distinct (link_to_censor m) \<longrightarrow> distinct (link_to_censor m'))"
proof (cases "jail_sentence a = 0 \<and> activation_type m = ''With SWN''")
  case False
  show ?thesis
  proof (cases "jail_sentence a = 0")
    case True
    then have nt: "activation_type m \<noteq> ''With SWN''" using False by simp
    then have "link_to_censor m' = link_to_censor m"
      using assms True
      by (auto simp: citizen_step_def move_step_links update_estimated_arrest_probability_eq
          Let_def split: prod.splits)
    then show ?thesis using nt by simp
  next
    case nz: False
    then have "link_to_censor m' = link_to_censor m"
      using assms by (auto simp: citizen_step_def set_agent_def)
    then show ?thesis using nz by simp
  qed
next
  case True
  from assms True obtain ego d1 d2 where p: "prepare_ego m a = Inr (ego, d1, d2)"
    by (auto simp: citizen_step_def split: sum.splits)
  obtain nbrs es where un: "update_neighbors m a = (nbrs, es)" by (cases "update_neighbors m a")
  have nz: "network_actives m nbrs d1 d2 \<noteq> 0"
    using assms True p un
    by (auto simp: citizen_step_def update_network_arrest_probability_eq split: if_splits)
  have l: "link_to_censor m' =
             (if condition a = Active
              then fold (\<lambda>v l. List.insert (canonical (unique_id a) v) l)
                        (neighbors ego (unique_id a)) (link_to_censor m)
              else link_to_censor m)"
    using assms citizen_step_network_eq[of a m ego d1 d2 nbrs es] True p un nz
    by (auto simp: Let_def move_step_links)
  show ?thesis
    unfolding l using True prepare_ego_live_edges[OF p]
    by (auto simp: fold_insert_set fold_insert_distinct)
qed

lemma cop_step_links:
  assumes "cop_step a m = Inr m'"
  shows "link_to_censor m' = link_to_censor m"
  using assms
  by (auto simp: cop_step_def Let_def split_def move_step_links set_agent_def random_randint_def
      random_random_def random_choice_model split: if_splits sum.splits)

lemma agent_step_links:
  assumes "agent_step i m = Inr m'"
  shows "set (link_to_censor m') = set (link_to_censor m) \<union> contributes m i \<and>
         (distinct (link_to_censor m) \<longrightarrow> distinct (link_to_censor m'))"
proof (cases "agent_by_id m i")
  case None
  then show ?thesis using assms by (simp add: agent_step_def contributes_def)
next
  case (Some a)
  have ia: "unique_id a = i" using agent_by_id_Some[OF Some] by simp
  show ?thesis
  proof (cases "breed a")
    case Citizen
    then have "citizen_step a m = Inr m'" using assms Some by (simp add: agent_step_def)
    from citizen_step_links[OF this] show ?thesis
      using Some Citizen ia by (auto simp: contributes_def)
  next
    case Cop
    then have "cop_step a m = Inr m'" using assms Some by (simp add: agent_step_def)
    from cop_step_links[OF this] show ?thesis
      using Some Cop by (simp add: contributes_def)
  qed
qed

lemma schedule_step_links:
  "schedule_step order m = Inr m' \<Longrightarrow>
     set (link_to_censor m') = set (link_to_censor m) \<union> pending_of_tick order m \<and>
     (distinct (link_to_censor m) \<longrightarrow> distinct (link_to_censor m'))"
proof (induction order arbitrary: m)
  case Nil
  then show ?case by simp
next
  case (Cons i order)
  from Cons.prems obtain m1 where s1: "agent_step i m = Inr m1"
    and s2: "schedule_step order m1 = Inr m'"
    by (auto split: sum.splits)
  show ?case using agent_step_links[OF s1] Cons.IH[OF s2] s1 by auto
qed

lemma censor_links_frame:
  "censor_links ls m = Inr m' \<Longrightarrow>
   m' = m\<lparr>G := G m', censored_links := censored_links m', rand_idx := rand_idx m'\<rparr>"
proof (induction ls arbitrary: m)
  case Nil
  then show ?case by simp
next
  case (Cons l ls)
  from Cons.prems obtain m1 where r: "censor_links ls m1 = Inr m'"
    and m1: "m1 = m\<lparr>G := G m1, censored_links := censored_links m1, rand_idx := rand_idx m1\<rparr>"
    by (auto simp: random_random_def Let_def split: option.splits if_splits)
  have e2: "m' = m1\<lparr>G := G m', censored_links := censored_links m', rand_idx := rand_idx m'\<rparr>"
    by (rule Cons.IH[OF r])
  have "m1\<lparr>G := G m', censored_links := censored_links m', rand_idx := rand_idx m'\<rparr>
      = m\<lparr>G := G m', censored_links := censored_links m', rand_idx := rand_idx m'\<rparr>"
    by (subst m1) simp
  with e2 show ?case by simp
qed

lemma end_tick_active_links:
  assumes "end_tick m = Inr m'"
  shows "active_links m' = length (link_to_censor m)"
proof -
  from assms obtain lr m2 m3 where
    c: "censor_links (link_to_censor m) (m\<lparr>active_links := length (link_to_censor m), activated_link_ratio := lr\<rparr>) = Inr m2"
    and k: "collect (m2\<lparr>link_to_censor := []\<rparr>) = Inr m3" and u: "update_counts m3 = Inr m'"
    by (auto simp: end_tick_def Let_def split: sum.splits)
  have "active_links m2 = length (link_to_censor m)"
    using arg_cong[OF censor_links_frame[OF c], of active_links] by simp
  moreover have "active_links m3 = active_links m2"
    using arg_cong[OF collect_frame[OF k], of active_links] by simp
  moreover have "active_links m' = active_links m3"
    using u by (auto simp: update_counts_def Let_def split: sum.splits if_splits)
  ultimately show ?thesis by simp
qed

text \<open>
  C4, as the code has it. In a tick that starts with an empty pending set, the set the
  scheduler drains after the activations is exactly the union of the contributions of the
  agents activated, each taken in the state in which that agent's activation begins: the
  canonical non-censored network edges at a citizen that is out of jail and whose condition
  is already Active at that moment, in network mode. \<open>active_links\<close> is the size of that
  set, and the set is empty again when the tick ends. A citizen that turns Active in its
  own activation contributes nothing in that tick, since the test of line 92 comes before
  the transition of lines 99-101.
\<close>

theorem pending_set_of_tick:
  assumes "step order m = Inr m''" and "link_to_censor m = []"
  shows "\<exists>m'. schedule_step order (begin_tick m) = Inr m' \<and> end_tick m' = Inr m'' \<and>
              set (link_to_censor m') = pending_of_tick order (begin_tick m) \<and>
              active_links m'' = card (pending_of_tick order (begin_tick m)) \<and>
              link_to_censor m'' = []"
proof -
  from assms(1) obtain m' where s: "schedule_step order (begin_tick m) = Inr m'"
    and e: "end_tick m' = Inr m''"
    by (auto simp: step_def split: sum.splits)
  have l0: "link_to_censor (begin_tick m) = []" using assms(2) by (simp add: begin_tick_def)
  have set: "set (link_to_censor m') = pending_of_tick order (begin_tick m)"
    and d: "distinct (link_to_censor m')"
    using schedule_step_links[OF s] l0 by auto
  have "active_links m'' = length (link_to_censor m')" by (rule end_tick_active_links[OF e])
  also have "\<dots> = card (pending_of_tick order (begin_tick m))"
    using distinct_card[OF d] set by simp
  finally show ?thesis using s e set end_tick_effect[OF e] by blast
qed

section \<open>Ticks of the two-citizen worlds\<close>

lemma update_counts_total: "\<exists>m'. update_counts m = Inr m' \<and> G m' = G m"
  by (simp add: update_counts_def Let_def get_average_jail_term_eq
      get_average_strong_ties_receival_eq get_average_weak_ties_receival_eq)

lemma end_tick_succeeds:
  assumes n: "number_of_edges m \<noteq> 0"
    and c: "censor_links (link_to_censor m)
              (m\<lparr>active_links := length (link_to_censor m),
                 activated_link_ratio := real (length (link_to_censor m)) / real (number_of_edges m)\<rparr>)
            = Inr m2"
  shows "\<exists>m'. end_tick m = Inr m' \<and> G m' = G m2"
proof -
  have n2: "number_of_edges (m2\<lparr>link_to_censor := []\<rparr>) \<noteq> 0"
    using arg_cong[OF censor_links_frame[OF c], of number_of_edges] n by simp
  from collect_edges[OF n2] obtain rows where
    k: "collect (m2\<lparr>link_to_censor := []\<rparr>) = Inr (m2\<lparr>link_to_censor := [], datacollector := rows\<rparr>)"
    by auto
  from update_counts_total[of "m2\<lparr>link_to_censor := [], datacollector := rows\<rparr>"]
  obtain m' where "update_counts (m2\<lparr>link_to_censor := [], datacollector := rows\<rparr>) = Inr m'"
    "G m' = G m2" by auto
  then show ?thesis
    using n c k by (simp add: end_tick_def Let_def get_active_link_ratio_eq)
qed

lemma two_world_facts:
  assumes "W = network_base\<lparr>agents := [x0, x1]\<rparr>"
  shows "agents (begin_tick W) = [x0, x1]" "activation_type (begin_tick W) = ''With SWN''"
    "movement (begin_tick W) = False" "get_neighborhood (begin_tick W) = torus_moore 3 1"
    "strong_weak_ratio (begin_tick W) = 5"
    "nodes (G (begin_tick W)) = [0, 1]" "edge_data (G (begin_tick W)) (0, 0) = None"
    "edge_data (G (begin_tick W)) (1, 1) = None" "edge_data (G (begin_tick W)) (0, 1) = Some 0"
    "link_to_censor (begin_tick W) = []" "number_of_edges (begin_tick W) = 1"
    "p_link_censor (begin_tick W) = 1" "t_censor (begin_tick W) = 5"
    "rand (begin_tick W) = (\<lambda>i. 1 / 2)"
  unfolding assms by (simp_all add: begin_tick_def network_base_fields decay_def)

lemma censor_world_schedule:
  "\<exists>m'. schedule_step [0, 1] (begin_tick censor_world) = Inr m' \<and>
        link_to_censor m' = [(0, 1)] \<and>
        map condition (agents m') = [Active, Quiescent] \<and>
        map actives_in_vision (agents m') = [Some 2, Some 7] \<and>
        map weak_ties_received (agents m') = [1, 0]"
proof -
  define B where "B = begin_tick censor_world"
  define x0 where "x0 = (example_citizen 0 (0, 0))\<lparr>condition := Active\<rparr>"
  define x1 where "x1 = example_citizen 1 (1, 0)"
  note f = two_world_facts[of censor_world x0 x1, folded B_def,
      OF censor_world_def[folded x0_def x1_def]]
  have a0: "unique_id x0 = 0" "breed x0 = Citizen" "pos x0 = (0, 0)" "vision x0 = 1"
    "jail_sentence x0 = 0"
    by (simp_all add: x0_def example_citizen_fields)
  have a1: "unique_id x1 = 1" "breed x1 = Citizen" "pos x1 = (1, 0)" "vision x1 = 1"
    "jail_sentence x1 = 0"
    by (simp_all add: x1_def example_citizen_fields)
  have c: "condition x0 = Active" "condition x1 = Quiescent" "\<not> grievance x1 > threshold x1"
    by (simp_all add: x0_def x1_def example_citizen_fields)
  define y0 where "y0 = x0\<lparr>strong_ties_received := 0, weak_ties_received := 1,
                        actives_in_vision := Some 2, arrest_probability := Some 0\<rparr>"
  define B1 where "B1 = B\<lparr>link_to_censor := [(0, 1)], agents := [y0, x1]\<rparr>"
  have s0: "agent_step 0 B = Inr B1"
    using two_citizens_step(1)[OF f(1-9) a0 a1]
    by (simp add: c f B1_def y0_def)
  have f1: "agents B1 = [y0, x1]" "activation_type B1 = ''With SWN''" "movement B1 = False"
    "get_neighborhood B1 = torus_moore 3 1" "strong_weak_ratio B1 = 5"
    "nodes (G B1) = [0, 1]" "edge_data (G B1) (0, 0) = None" "edge_data (G B1) (1, 1) = None"
    "edge_data (G B1) (0, 1) = Some 0"
    using f by (simp_all add: B1_def)
  have b0: "unique_id y0 = 0" "breed y0 = Citizen" "pos y0 = (0, 0)" "vision y0 = 1"
    "jail_sentence y0 = 0" "condition y0 = Active"
    by (simp_all add: y0_def a0 c)
  have s1: "\<exists>m'. agent_step 1 B1 = Inr m' \<and> link_to_censor m' = [(0, 1)] \<and>
        map condition (agents m') = [Active, Quiescent] \<and>
        map actives_in_vision (agents m') = [Some 2, Some 7] \<and>
        map weak_ties_received (agents m') = [1, 0]"
    using two_citizens_step(2)[OF f1 b0(1-5) a1]
    by (simp add: c b0 B1_def y0_def)
  show ?thesis
    unfolding B_def[symmetric] using s0 s1 by (auto simp del: One_nat_def)
qed


lemma censor_world_step:
  "\<exists>m0. step [0, 1] censor_world = Inr m0 \<and> edge_data (G m0) (0, 1) = Some 5"
proof -
  define B where "B = begin_tick censor_world"
  note f = two_world_facts[of censor_world _ _, folded B_def, OF censor_world_def]
  from censor_world_schedule obtain m' where
    s: "schedule_step [0, 1] B = Inr m'" and l: "link_to_censor m' = [(0, 1)]"
    unfolding B_def by blast
  note fr = schedule_step_frame[OF s]
  have g: "G m' = G B" "number_of_edges m' = 1" "p_link_censor m' = 1" "t_censor m' = 5"
    "rand m' = (\<lambda>i. 1 / 2)"
    using arg_cong[OF fr, of G] arg_cong[OF fr, of number_of_edges]
      arg_cong[OF fr, of p_link_censor] arg_cong[OF fr, of t_censor] arg_cong[OF fr, of rand] f
    by simp_all
  define M2 where "M2 = m'\<lparr>active_links := 1, activated_link_ratio := 1,
      rand_idx := Suc (rand_idx m'),
      G := (G B)\<lparr>edge_data := (edge_data (G B))((0, 1) \<mapsto> 5)\<rparr>,
      censored_links := censored_links m' + 1\<rparr>"
  have c: "censor_links (link_to_censor m')
              (m'\<lparr>active_links := length (link_to_censor m'),
                  activated_link_ratio := real (length (link_to_censor m')) / real (number_of_edges m')\<rparr>)
            = Inr M2"
    using f(9) by (simp add: l g canonical_def random_random_def M2_def)
  have "number_of_edges m' \<noteq> 0" using g by simp
  from end_tick_succeeds[OF this c] obtain m0 where "end_tick m' = Inr m0" "G m0 = G M2"
    by blast
  then have "step [0, 1] censor_world = Inr m0 \<and> edge_data (G m0) (0, 1) = Some 5"
    using s by (simp add: step_def B_def M2_def del: One_nat_def)
  then show ?thesis by blast
qed

lemma rising_world_schedule:
  "\<exists>m'. schedule_step [0, 1] (begin_tick rising_world) = Inr m' \<and>
        link_to_censor m' = [] \<and>
        map condition (agents m') = [Active, Quiescent]"
proof -
  define B where "B = begin_tick rising_world"
  define x0 where "x0 = new_citizen 0 (0, 0) 1 0 (1 / 2) (1 / 10) 1"
  define x1 where "x1 = example_citizen 1 (1, 0)"
  note f = two_world_facts[of rising_world x0 x1, folded B_def,
      OF rising_world_def[folded x0_def x1_def]]
  have a0: "unique_id x0 = 0" "breed x0 = Citizen" "pos x0 = (0, 0)" "vision x0 = 1"
    "jail_sentence x0 = 0"
    by (simp_all add: x0_def new_citizen_def)
  have a1: "unique_id x1 = 1" "breed x1 = Citizen" "pos x1 = (1, 0)" "vision x1 = 1"
    "jail_sentence x1 = 0"
    by (simp_all add: x1_def example_citizen_fields)
  have c: "condition x0 = Quiescent" "grievance x0 > threshold x0"
    "condition x1 = Quiescent" "\<not> grievance x1 > threshold x1"
    by (simp_all add: x0_def x1_def example_citizen_fields new_citizen_def)
  define y0 where "y0 = x0\<lparr>strong_ties_received := 0, weak_ties_received := 0,
                        actives_in_vision := Some 1, arrest_probability := Some 0,
                        condition := Active\<rparr>"
  define B1 where "B1 = B\<lparr>agents := [y0, x1]\<rparr>"
  have s0: "agent_step 0 B = Inr B1"
    using two_citizens_step(1)[OF f(1-9) a0 a1]
    by (simp add: c f B1_def y0_def)
  have f1: "agents B1 = [y0, x1]" "activation_type B1 = ''With SWN''" "movement B1 = False"
    "get_neighborhood B1 = torus_moore 3 1" "strong_weak_ratio B1 = 5"
    "nodes (G B1) = [0, 1]" "edge_data (G B1) (0, 0) = None" "edge_data (G B1) (1, 1) = None"
    "edge_data (G B1) (0, 1) = Some 0" "link_to_censor B1 = []"
    using f by (simp_all add: B1_def)
  have b0: "unique_id y0 = 0" "breed y0 = Citizen" "pos y0 = (0, 0)" "vision y0 = 1"
    "jail_sentence y0 = 0" "condition y0 = Active"
    by (simp_all add: y0_def a0 c)
  have s1: "\<exists>m'. agent_step 1 B1 = Inr m' \<and> link_to_censor m' = [] \<and>
        map condition (agents m') = [Active, Quiescent]"
    using two_citizens_step(2)[OF f1(1-9) b0(1-5) a1]
    by (simp add: c b0 f1)
  show ?thesis
    unfolding B_def[symmetric] using s0 s1 by (auto simp del: One_nat_def)
qed

theorem pending_set_of_tick_witness:
  "link_to_censor censor_world = [] \<and>
   (\<exists>m''. step [0, 1] censor_world = Inr m'' \<and> active_links m'' = 1 \<and>
          link_to_censor m'' = []) \<and>
   pending_of_tick [0, 1] (begin_tick censor_world) = {(0, 1)}"
proof -
  have l: "link_to_censor censor_world = []"
    by (simp add: censor_world_def network_base_fields)
  from censor_world_step obtain m'' where s: "step [0, 1] censor_world = Inr m''" by blast
  from pending_set_of_tick[OF s l] obtain m' where
    m': "schedule_step [0, 1] (begin_tick censor_world) = Inr m'"
    and p: "set (link_to_censor m') = pending_of_tick [0, 1] (begin_tick censor_world)"
    and a: "active_links m'' = card (pending_of_tick [0, 1] (begin_tick censor_world))"
    and e: "link_to_censor m'' = []"
    by blast
  from censor_world_schedule m' have "link_to_censor m' = [(0, 1)]" by auto
  then have "pending_of_tick [0, 1] (begin_tick censor_world) = {(0, 1)}" using p by simp
  then show ?thesis using l s a e by simp
qed

text \<open>
  The claim as stated also counts a citizen that turns Active in the tick. In \<open>rising_world\<close>
  citizen 0 starts Quiescent, becomes Active in its activation and has the live edge
  \<open>(0, 1)\<close>; the pending set after both activations is empty.
\<close>

theorem newly_active_citizen_counterexample:
  "\<exists>m'. schedule_step [0, 1] (begin_tick rising_world) = Inr m' \<and>
        map condition (agents rising_world) = [Quiescent, Quiescent] \<and>
        map condition (agents m') = [Active, Quiescent] \<and>
        live_incident_edges (G (begin_tick rising_world)) 0 = {(0, 1)} \<and>
        link_to_censor m' = []"
proof -
  have c: "map condition (agents rising_world) = [Quiescent, Quiescent]"
    by (simp add: rising_world_def example_citizen_fields new_citizen_def)
  have e: "live_incident_edges (G (begin_tick rising_world)) 0 = {(0, 1)}"
    using two_world_facts[OF rising_world_def]
    by (simp add: live_incident_edges_def canonical_def)
  from rising_world_schedule obtain m' where
    m': "schedule_step [0, 1] (begin_tick rising_world) = Inr m'" "link_to_censor m' = []"
    "map condition (agents m') = [Active, Quiescent]"
    by (elim exE conjE)
  show ?thesis
    by (rule exI[of _ m']) (simp only: m' c e simp_thms)
qed

section \<open>Censorship over time\<close>

lemma step_nodes: "step order m = Inr m' \<Longrightarrow> nodes (G m') = nodes (G m)"
proof -
  assume "step order m = Inr m'"
  then obtain m1 where s: "schedule_step order (begin_tick m) = Inr m1" and e: "end_tick m1 = Inr m'"
    by (auto simp: step_def split: sum.splits)
  have "nodes (G m1) = nodes (G m)" using schedule_step_G[OF s] by (simp add: begin_tick_def decay_def)
  then show ?thesis using end_tick_effect[OF e] by simp
qed

lemma run_nodes: "run orders m0 = Inr m \<Longrightarrow> nodes (G m) = nodes (G m0)"
  by (induction orders arbitrary: m0) (auto split: sum.splits dest: step_nodes)

text \<open>
  C3, as the code has it. Let the resolution of tick \<open>T\<close> (the step from \<open>mT\<close> to \<open>m0\<close>)
  censor the edge \<open>e\<close>, that is, change its countdown from the value the agents of tick \<open>T\<close>
  saw. Then that value was 0: during tick \<open>T\<close> itself the edge is still in the ego view of
  its endpoints, because the resolution comes after the activations. The countdown is set to
  \<open>t_censor\<close>, and the agents of tick \<open>T + k\<close> see \<open>t_censor - k\<close> for \<open>1 \<le> k \<le> t_censor\<close>:
  the edge is in no ego view during the ticks \<open>T + 1 .. T + t_censor - 1\<close> and is back, with
  countdown 0, in the ego view of its endpoints during tick \<open>T + t_censor\<close>. Here \<open>orders\<close>
  are the ticks \<open>T + 1 .. T + k - 1\<close> and \<open>begin_tick m\<close> is the state the agents of tick
  \<open>T + k\<close> see.
\<close>

theorem censored_edge_window:
  assumes tickT: "step order mT = Inr m0"
    and censored: "edge_data (G m0) e \<noteq> edge_data (G (begin_tick mT)) e"
    and later: "run orders m0 = Inr m"
    and j: "int (length orders) < t_censor mT"
  shows "edge_data (G (begin_tick mT)) e = Some 0 \<and>
         edge_data (G m0) e = Some (t_censor mT) \<and>
         edge_data (G (begin_tick m)) e = Some (t_censor mT - int (length orders) - 1) \<and>
         (\<forall>a v ego d1 d2.
            e = canonical (unique_id a) v \<and> v \<in> set (nodes (G mT)) \<and>
            prepare_ego (begin_tick mT) a = Inr (ego, d1, d2) \<longrightarrow>
            edge_data ego e = Some 0 \<and> v \<in> set (neighbors ego (unique_id a))) \<and>
         (\<forall>a ego d1 d2.
            prepare_ego (begin_tick m) a = Inr (ego, d1, d2) \<longrightarrow>
            (int (length orders) + 1 < t_censor mT \<longrightarrow> edge_data ego e = None) \<and>
            (int (length orders) + 1 = t_censor mT \<longrightarrow>
               (\<forall>v. e = canonical (unique_id a) v \<and> v \<in> set (nodes (G mT)) \<longrightarrow>
                    edge_data ego e = Some 0 \<and> v \<in> set (neighbors ego (unique_id a)))))"
proof -
  have "edge_data (G m0) e = edge_data (G (begin_tick mT)) e \<or>
        (edge_data (G (begin_tick mT)) e = Some 0 \<and> edge_data (G m0) e = Some (t_censor mT))"
    using step_countdown[OF tickT] by blast
  then have T: "edge_data (G (begin_tick mT)) e = Some 0" and T0: "edge_data (G m0) e = Some (t_censor mT)"
    using censored by auto
  have m: "edge_data (G m) e = Some (t_censor mT - int (length orders))"
    using run_countdown[OF later T0 j] by simp
  have d: "edge_data (G (begin_tick m)) e = Some (t_censor mT - int (length orders) - 1)"
    using m j by (simp add: edge_data_begin_tick)
  have nT: "nodes (G (begin_tick mT)) = nodes (G mT)" by (simp add: begin_tick_def decay_def)
  have nm: "nodes (G (begin_tick m)) = nodes (G mT)"
    using run_nodes[OF later] step_nodes[OF tickT] by (simp add: begin_tick_def decay_def)
  have during: "edge_data ego e = Some 0 \<and> v \<in> set (neighbors ego (unique_id a))"
    if "e = canonical (unique_id a) v" "v \<in> set (nodes (G mT))"
      "prepare_ego (begin_tick mT) a = Inr (ego, d1, d2)" for a v ego d1 d2
    using live_edge_included[OF that(3), of v 0] T that(1,2) nT by simp
  have after: "(int (length orders) + 1 < t_censor mT \<longrightarrow> edge_data ego e = None) \<and>
            (int (length orders) + 1 = t_censor mT \<longrightarrow>
               (\<forall>v. e = canonical (unique_id a) v \<and> v \<in> set (nodes (G mT)) \<longrightarrow>
                    edge_data ego e = Some 0 \<and> v \<in> set (neighbors ego (unique_id a))))"
    if p: "prepare_ego (begin_tick m) a = Inr (ego, d1, d2)" for a ego d1 d2
  proof (intro conjI impI allI)
    assume "int (length orders) + 1 < t_censor mT"
    then show "edge_data ego e = None"
      using censored_edge_excluded[OF p d] by simp
  next
    fix v
    assume l: "int (length orders) + 1 = t_censor mT"
      and v: "e = canonical (unique_id a) v \<and> v \<in> set (nodes (G mT))"
    then have "edge_data (G (begin_tick m)) (canonical (unique_id a) v) = Some 0"
      using d by simp
    from live_edge_included[OF p this] v nm
    show "edge_data ego e = Some 0" "v \<in> set (neighbors ego (unique_id a))" by simp_all
  qed
  show ?thesis using T T0 d during after by blast
qed

theorem censored_edge_window_witness:
  "\<exists>m0. step [0, 1] censor_world = Inr m0 \<and>
        edge_data (G m0) (0, 1) \<noteq> edge_data (G (begin_tick censor_world)) (0, 1) \<and>
        run [] m0 = Inr m0 \<and>
        int (length ([] :: nat list list)) < t_censor censor_world \<and>
        edge_data (G (begin_tick censor_world)) (0, 1) = Some 0 \<and>
        edge_data (G m0) (0, 1) = Some 5 \<and>
        edge_data (G (begin_tick m0)) (0, 1) = Some 4"
proof -
  from censor_world_step obtain m0 where s: "step [0, 1] censor_world = Inr m0"
    and e: "edge_data (G m0) (0, 1) = Some 5"
    by (elim exE conjE)
  have b: "edge_data (G (begin_tick censor_world)) (0, 1) = Some 0"
    using two_world_facts[OF censor_world_def] by simp
  have t: "t_censor censor_world = 5" by (simp add: censor_world_def network_base_fields)
  have c: "edge_data (G m0) (0, 1) \<noteq> edge_data (G (begin_tick censor_world)) (0, 1)"
    using e b by simp
  have r: "run [] m0 = Inr m0" by simp
  have j: "int (length ([] :: nat list list)) < t_censor censor_world" using t by simp
  have "edge_data (G (begin_tick m0)) (0, 1) = Some (t_censor censor_world - int (length ([] :: nat list list)) - 1)"
    using censored_edge_window[OF s c r j] by blast
  then have "edge_data (G (begin_tick m0)) (0, 1) = Some 4" using t by simp
  then show ?thesis using s c r j b e by blast
qed

text \<open>
  The claim as stated excludes the edge from the ego views of tick \<open>T\<close> itself. In
  \<open>censor_world\<close> the tick censors the edge \<open>(0, 1)\<close>, and the ego view that citizen 0
  computes in that tick contains the edge, with citizen 1 as a strong tie.
\<close>

theorem censored_in_tick_still_visible_counterexample:
  "\<exists>m0 ego d1 d2.
     step [0, 1] censor_world = Inr m0 \<and>
     edge_data (G (begin_tick censor_world)) (0, 1) = Some 0 \<and>
     edge_data (G m0) (0, 1) = Some (t_censor censor_world) \<and>
     prepare_ego (begin_tick censor_world) ((example_citizen 0 (0, 0))\<lparr>condition := Active\<rparr>) =
       Inr (ego, d1, d2) \<and>
     edge_data ego (0, 1) = Some 0 \<and> neighbors ego 0 = [1]"
proof -
  from censor_world_step obtain m0 where s: "step [0, 1] censor_world = Inr m0"
    and e: "edge_data (G m0) (0, 1) = Some 5"
    by (elim exE conjE)
  note f = two_world_facts[OF censor_world_def]
  have t: "t_censor censor_world = 5" by (simp add: censor_world_def network_base_fields)
  let ?a = "(example_citizen 0 (0, 0))\<lparr>condition := Active\<rparr>"
  have ia: "unique_id ?a = 0" by (simp add: example_citizen_fields)
  from ego_example[OF f(6-9), of ?a] obtain ego where
    p: "prepare_ego (begin_tick censor_world) ?a =
          Inr (ego, get_agents_by_ids (begin_tick censor_world) [1 - unique_id ?a],
               get_agents_by_ids (begin_tick censor_world) [unique_id ?a])"
    and n: "neighbors ego (unique_id ?a) = [1 - unique_id ?a]"
    using ia by auto
  have "edge_data ego (canonical (unique_id ?a) 1) = Some 0"
    using live_edge_included[OF p, of 1 0] f by (simp add: ia canonical_def)
  then have ee: "edge_data ego (0, 1) = Some 0" by (simp add: ia canonical_def)
  have n': "neighbors ego 0 = [1]" using n by (simp add: ia)
  show ?thesis
    using s f(9) e t p ee n' by (intro exI conjI) simp_all
qed

section \<open>The citizen as its own weak tie\<close>

lemma set_map_filter: "set (List.map_filter f xs) = {y. \<exists>x\<in>set xs. f x = Some y}"
  by (induction xs) (auto simp: List.map_filter_simps split: option.splits)





lemma own_weak_tie:
  assumes p: "prepare_ego m a = Inr (ego, d1, d2)"
    and d: "agent_dict m (unique_id a) = Some a"
    and noloop: "edge_data (G m) (unique_id a, unique_id a) = None"
  shows "a \<in> set d2"
proof -
  let ?i = "unique_id a"
  let ?ego1 = "subgraph (G m) (nodes_within (G m) ?i 2)"
  let ?pr = "remove_censored ?ego1"
  have ego: "ego = subgraph ?pr (nodes_within ?pr ?i 2)" by (rule prepare_ego_result(2)[OF p])
  have i: "?i \<in> set (nodes (G m))" by (rule prepare_ego_result(1)[OF p])
  have "?i \<in> set (nodes ?pr)"
    using i nodes_within_self[of ?i "G m" 2] by (simp add: remove_censored_def subgraph_def)
  then have ie: "?i \<in> set (nodes ego)"
    unfolding ego using nodes_within_self[of ?i ?pr 2] by (simp add: subgraph_def)
  have "edge_data ego (canonical ?i ?i) = None"
    unfolding ego using noloop by (simp add: subgraph_def remove_censored_def canonical_def)
  then have "?i \<notin> set (neighbors ego ?i)" by (simp add: neighbors_def)
  then have "?i \<in> set (filter (\<lambda>x. x \<notin> set (neighbors ego ?i)) (remdups (nodes ego)))"
    using ie by simp
  then show ?thesis
    unfolding prepare_ego_result(4)[OF p] get_agents_by_ids_def set_map_filter using d by blast
qed

text \<open>
  C1. In \<open>censor_world\<close> citizen 0 is Active and out of jail; its only spatial neighbour and
  only strong tie, citizen 1, is Quiescent, and no other node is within two hops. By the
  claim its actives-in-vision value is 1. \<^verbatim>\<open>prepare_ego\<close> leaves the citizen itself in
  \<^verbatim>\<open>degree_2_neighbors\<close>, so it is counted a second time, as a weak tie: the value is 2 and
  \<open>weak_ties_received\<close> is 1.
\<close>

theorem citizen_counted_as_its_own_weak_tie:
  "\<exists>m'. agent_step 0 (begin_tick censor_world) = Inr m' \<and>
        map condition (agents (begin_tick censor_world)) = [Active, Quiescent] \<and>
        map jail_sentence (agents (begin_tick censor_world)) = [0, 0] \<and>
        nodes (G (begin_tick censor_world)) = [0, 1] \<and>
        map actives_in_vision (agents m') = [Some 2, None] \<and>
        map strong_ties_received (agents m') = [0, 0] \<and>
        map weak_ties_received (agents m') = [1, 0]"
proof -
  define B where "B = begin_tick censor_world"
  define x0 where "x0 = (example_citizen 0 (0, 0))\<lparr>condition := Active\<rparr>"
  define x1 where "x1 = example_citizen 1 (1, 0)"
  note f = two_world_facts[of censor_world x0 x1, folded B_def,
      OF censor_world_def[folded x0_def x1_def]]
  have a0: "unique_id x0 = 0" "breed x0 = Citizen" "pos x0 = (0, 0)" "vision x0 = 1"
    "jail_sentence x0 = 0"
    by (simp_all add: x0_def example_citizen_fields)
  have a1: "unique_id x1 = 1" "breed x1 = Citizen" "pos x1 = (1, 0)" "vision x1 = 1"
    "jail_sentence x1 = 0"
    by (simp_all add: x1_def example_citizen_fields)
  have c: "condition x0 = Active" "condition x1 = Quiescent"
    "actives_in_vision x1 = None" "strong_ties_received x1 = 0" "weak_ties_received x1 = 0"
    by (simp_all add: x0_def x1_def example_citizen_fields example_citizen_def new_citizen_def)
  show ?thesis
    unfolding B_def[symmetric] using two_citizens_step(1)[OF f(1-9) a0 a1]
    by (simp add: c f a0 a1)
qed

section \<open>A single citizen\<close>






text \<open>
  Construction with exactly one citizen placed never returns a model: the generator rejects
  a lattice degree above 1, and for a lattice degree of 1 or less the graph on one node has
  no edge, so that the first data collection divides by \<open>number_of_edges = 0\<close>. (The rewiring
  pass loops over the lattice edges and does nothing when there is none.)
\<close>

lemma one_citizen_not_constructed:
  assumes w: "arg_generator p = watts_strogatz_graph rewire" and e: "rewire [] = []"
    and pl: "snd (place_agents p (coord_iter (arg_width p) (arg_height p))
                    (initial_model p, 0, [])) = (uid, [i])"
  shows "\<exists>e. init p = Inl e"
proof (cases "arg_cop_density p + arg_citizen_density p \<le> 1")
  case False
  then show ?thesis by (simp add: init_def density_check_def)
next
  case d: True
  let ?k = "arg_lattice_neighbor p"
  consider (above) "1 < ?k" | (equal) "?k = 1" | (below) "?k < 1" by linarith
  then show ?thesis
  proof cases
    case above
    have "arg_generator p (length [i]) ?k (arg_rewire_prob p) = Inl NetworkXError"
      using above by (simp add: w watts_strogatz_graph_def)
    from init_generator_rejects[OF d pl this] show ?thesis by blast
  next
    case equal
    have "arg_generator p (length [i]) ?k (arg_rewire_prob p) = Inr ([0], [])"
      using equal by (simp add: w watts_strogatz_graph_def complete_graph_def)
    from init_no_edges[OF d pl this] show ?thesis by (simp add: relabelled_edges_def)
  next
    case below
    then have "nat (?k div 2) = 0" by simp
    then have "ring_lattice 1 ?k = []" by (simp add: ring_lattice_def)
    then have "arg_generator p (length [i]) ?k (arg_rewire_prob p) = Inr ([0], [])"
      using below by (simp add: w watts_strogatz_graph_def e)
    from init_no_edges[OF d pl this] show ?thesis by (simp add: relabelled_edges_def)
  qed
qed





end
